theory Spec2Isabelle
  imports Main
begin

section \<open>Data model of \<open>src/src/App.tsx\<close>\<close>

text \<open>
  The two interfaces of the source. A JavaScript number that the program only ever uses as
  an integer count of milliseconds (or as a lap counter) is an \<open>int\<close>. The field names
  \<open>id\<close> and \<open>time\<close> carry a suffix, because \<open>id\<close> is a HOL constant and the component
  state has a \<open>time\<close> of its own.
\<close>

record LapTime =
  id_lap :: int
  time_lap :: int
  lapTime :: int

record Session =
  id_session :: string
  date :: string
  totalTime :: int
  lapTimes_session :: "LapTime list"

text \<open>
  The state of the \<open>App\<close> component: its \<open>useState\<close> cells, and the browser's
  \<open>localStorage\<close> as a map from keys to stored strings. (\<open>showHistory\<close> only opens a
  panel and is left out; \<open>intervalRef\<close> is represented by the guard of the tick event
  below.)
\<close>

record App =
  time :: int
  isRunning :: bool
  lapTimes :: "LapTime list"
  lastLapTime :: int
  sessions :: "Session list"
  localStorage :: "string \<rightharpoonup> string"

definition STORAGE_KEY :: string where
  "STORAGE_KEY = ''stopwatch-sessions''"

section \<open>Numbers as text\<close>

text \<open>
  \<open>Number.prototype.toString\<close> on an integer below \<open>2 ^ 53\<close> in absolute value, which a
  JavaScript number holds exactly (a clock reading, a lap number, the time of a timer that
  counts up from 0): its decimal digits, with a leading minus sign for a negative one.
  \<open>Number_toString\<close> below is the function on every integer-valued number.
\<close>

definition digit_char :: "nat \<Rightarrow> char" where
  "digit_char d = ''0123456789'' ! d"

fun digits :: "nat \<Rightarrow> string" where
  "digits n = (if n < 10 then [digit_char n] else digits (n div 10) @ [digit_char (n mod 10)])"

declare digits.simps [simp del]

definition toString :: "int \<Rightarrow> string" where
  "toString n = (if n < 0 then CHR ''-'' # digits (nat (- n)) else digits (nat n))"

text \<open>\<open>String.prototype.padStart\<close> with a one-character filler.\<close>

definition padStart :: "nat \<Rightarrow> char \<Rightarrow> string \<Rightarrow> string" where
  "padStart n c s = replicate (n - length s) c @ s"

text \<open>
  The \<open>%\<close> of JavaScript takes the sign of the dividend; on numbers that are integers
  its result is exact.
\<close>

definition js_rem :: "int \<Rightarrow> int \<Rightarrow> int" where
  "js_rem a b = sgn a * (\<bar>a\<bar> mod \<bar>b\<bar>)"

text \<open>
  A JavaScript number is an IEEE double. One that is an integer is held here as that
  integer, and what \<open>formatTime\<close> computes with it is rounded as the code rounds it.
  \<open>bitlen\<close> counts the binary digits of a number, and \<open>to_double\<close> is the double nearest
  to a natural number: the number cut to 53 significant binary digits, rounded to the
  nearest, a tie going to the even one. (The range of the exponent is not modelled: no
  number here is beyond \<open>2 ^ 1024\<close>.)
\<close>

fun bitlen :: "nat \<Rightarrow> nat" where
  "bitlen n = (if n = 0 then 0 else Suc (bitlen (n div 2)))"

declare bitlen.simps [simp del]

definition to_double :: "nat \<Rightarrow> nat" where
  "to_double c =
     (if bitlen c \<le> 53 then c
      else let sh = bitlen c - 53; q = c div 2 ^ sh; r = c mod 2 ^ sh; half = 2 ^ (sh - 1)
           in (if half < r \<or> (r = half \<and> odd q) then q + 1 else q) * 2 ^ sh)"

text \<open>
  \<open>a / b\<close> for two numbers that are integers, \<open>a\<close> not negative and \<open>b\<close> positive: the
  quotient rounded to 53 significant binary digits, as a pair \<open>(n, k)\<close> that stands for
  \<open>n / 2 ^ k\<close>. The quotient is taken with \<open>k\<close> binary digits after the point, which
  leaves it more than 64 significant ones; \<open>sticky\<close> says whether the division left a
  remainder, which decides a tie. \<open>Math_floor_div a b\<close> is \<open>Math.floor(a / b)\<close> for a
  positive \<open>b\<close>; a negative \<open>a\<close> divides as its absolute value and the floor becomes the
  negated ceiling.
\<close>

definition js_divide :: "nat \<Rightarrow> nat \<Rightarrow> nat \<times> nat" where
  "js_divide a b =
     (if a = 0 then (0, 0)
      else let k = 64 + bitlen b; n = a * 2 ^ k div b; sticky = (a * 2 ^ k mod b \<noteq> 0);
               sh = bitlen n - 53; q = n div 2 ^ sh; r = n mod 2 ^ sh; half = 2 ^ (sh - 1)
           in ((if half < r \<or> (r = half \<and> (sticky \<or> odd q)) then q + 1 else q) * 2 ^ sh, k))"

definition Math_floor_div :: "int \<Rightarrow> int \<Rightarrow> int" where
  "Math_floor_div a b =
     (case js_divide (nat \<bar>a\<bar>) (nat b) of
        (n, k) \<Rightarrow> if 0 \<le> a then int (n div 2 ^ k) else - int ((n + 2 ^ k - 1) div 2 ^ k))"

text \<open>
  \<open>Number.prototype.toString\<close> on a number that is an integer: the decimal with the
  fewest significant digits that reads back as the same double, the closest one to the
  number if there are several and the even one in a tie, written with its zeros below
  \<open>10 ^ 21\<close> and in exponent form from there on. \<open>shortest v z\<close> looks for it among the
  multiples of \<open>10 ^ z\<close> on either side of \<open>v\<close>, with \<open>z\<close> going down, so that the first
  one found has the fewest digits.
\<close>

fun shortest :: "nat \<Rightarrow> nat \<Rightarrow> nat" where
  "shortest v 0 = v"
| "shortest v (Suc z) =
     (let p = 10 ^ Suc z; lo = v div p * p; hi = lo + p;
          lo_ok = (0 < lo \<and> to_double lo = v); hi_ok = (to_double hi = v)
      in if lo_ok \<and> hi_ok
           then (if v - lo < hi - v \<or> (v - lo = hi - v \<and> even (v div p)) then lo else hi)
         else if lo_ok then lo
         else if hi_ok then hi
         else shortest v z)"

definition exp_format :: "nat \<Rightarrow> string" where
  "exp_format c =
     (let ds = digits c; sig = rev (dropWhile (\<lambda>d. d = CHR ''0'') (rev ds))
      in (case sig of
            [] \<Rightarrow> []
          | d # ps \<Rightarrow> d # (if ps = [] then [] else CHR ''.'' # ps))
         @ ''e+'' @ digits (length ds - 1))"

definition Number_toString :: "int \<Rightarrow> string" where
  "Number_toString n =
     (let v = nat \<bar>n\<bar>; c = shortest v (length (digits v));
          body = (if c < 10 ^ 21 then digits c else exp_format c)
      in if n < 0 then CHR ''-'' # body else body)"

definition formatTime :: "int \<Rightarrow> string" where
  "formatTime milliseconds =
     (let totalSeconds = Math_floor_div milliseconds 1000;
          minutes = Math_floor_div totalSeconds 60;
          seconds = js_rem totalSeconds 60;
          ms = Math_floor_div (js_rem milliseconds 1000) 10
      in padStart 2 CHR ''0'' (Number_toString minutes) @ '':'' @
         padStart 2 CHR ''0'' (Number_toString seconds) @ ''.'' @
         padStart 2 CHR ''0'' (Number_toString ms))"

text \<open>Reading a decimal numeral back, used to state what the fields of the display mean.\<close>

definition digit_val :: "char \<Rightarrow> nat" where
  "digit_val c = (of_char c :: nat) - 48"

definition read_nat :: "string \<Rightarrow> nat" where
  "read_nat s = foldl (\<lambda>a c. 10 * a + digit_val c) 0 s"

definition is_digit :: "char \<Rightarrow> bool" where
  "is_digit c = (c \<in> set ''0123456789'')"

section \<open>JSON text written by the program\<close>

text \<open>
  A JSON text as a tree. Number and string literals are kept as they are written (the
  characters of the numeral, the characters between the quotes with their escapes), so
  that no conversion to a double and no decoding of \<open>\u\<close> escapes is involved.
\<close>

datatype json =
    JNull
  | JBool bool
  | JNum string
  | JStr string
  | JArr "json list"
  | JObj "(string \<times> json) list"

text \<open>
  \<open>JSON.stringify\<close> quotes a string: the quote and the backslash are escaped, the control
  characters below U+0020 get their short escape or \<open>\u00XX\<close>.
\<close>

definition hex_char :: "nat \<Rightarrow> char" where
  "hex_char d = ''0123456789abcdef'' ! d"

definition quote_char :: "char \<Rightarrow> string" where
  "quote_char c =
     (if c = CHR 0x22 then [CHR 0x5C, CHR 0x22]
      else if c = CHR 0x5C then [CHR 0x5C, CHR 0x5C]
      else if c = CHR 0x08 then [CHR 0x5C, CHR ''b'']
      else if c = CHR 0x0C then [CHR 0x5C, CHR ''f'']
      else if c = CHR 0x0A then [CHR 0x5C, CHR ''n'']
      else if c = CHR 0x0D then [CHR 0x5C, CHR ''r'']
      else if c = CHR 0x09 then [CHR 0x5C, CHR ''t'']
      else if (of_char c :: nat) < 32
        then [CHR 0x5C, CHR ''u'', CHR ''0'', CHR ''0'',
              hex_char ((of_char c :: nat) div 16), hex_char ((of_char c :: nat) mod 16)]
      else [c])"

definition quote_body :: "string \<Rightarrow> string" where
  "quote_body s = concat (map quote_char s)"

fun commas :: "string list \<Rightarrow> string" where
  "commas [] = []"
| "commas [x] = x"
| "commas (x # y # ys) = x @ '','' @ commas (y # ys)"

fun render :: "json \<Rightarrow> string" where
  "render JNull = ''null''"
| "render (JBool b) = (if b then ''true'' else ''false'')"
| "render (JNum n) = n"
| "render (JStr s) = [CHR 0x22] @ s @ [CHR 0x22]"
| "render (JArr vs) = ''['' @ commas (map render vs) @ '']''"
| "render (JObj ms) =
     ''{'' @ commas (map (\<lambda>m. [CHR 0x22] @ fst m @ [CHR 0x22] @ '':'' @ render (snd m)) ms) @ ''}''"

text \<open>
  The trees of the two interfaces, with the properties in the order in which the object
  literals of \<open>handleLap\<close> and \<open>saveSession\<close> create them.
\<close>

definition lap_json :: "LapTime \<Rightarrow> json" where
  "lap_json l =
     JObj [(''id'', JNum (toString (id_lap l))),
           (''time'', JNum (toString (time_lap l))),
           (''lapTime'', JNum (toString (lapTime l)))]"

definition session_json :: "Session \<Rightarrow> json" where
  "session_json s =
     JObj [(''id'', JStr (quote_body (id_session s))),
           (''date'', JStr (quote_body (date s))),
           (''totalTime'', JNum (toString (totalTime s))),
           (''lapTimes'', JArr (map lap_json (lapTimes_session s)))]"

definition sessions_json :: "Session list \<Rightarrow> json" where
  "sessions_json ss = JArr (map session_json ss)"

definition JSON_stringify :: "Session list \<Rightarrow> string" where
  "JSON_stringify ss = render (sessions_json ss)"

section \<open>The handlers of the component\<close>

definition handleStartStop :: "App \<Rightarrow> App" where
  "handleStartStop s = s\<lparr>isRunning := \<not> isRunning s\<rparr>"

text \<open>The callback of the 10 ms interval: \<open>setTime(prevTime => prevTime + 10)\<close>.\<close>

definition tick :: "App \<Rightarrow> App" where
  "tick s = s\<lparr>time := time s + 10\<rparr>"

text \<open>
  \<open>saveSession\<close> reads the clock twice: \<open>Date.now()\<close> (here \<open>now\<close>, milliseconds) for
  the id and \<open>new Date().toISOString()\<close> (here \<open>stamp\<close>) for the date. Both are inputs of
  the model.
\<close>

definition saveSession :: "int \<Rightarrow> string \<Rightarrow> App \<Rightarrow> App" where
  "saveSession now stamp s =
     (if time s > 0
      then let newSession = \<lparr>id_session = toString now, date = stamp,
                              totalTime = time s, lapTimes_session = lapTimes s\<rparr>
           in s\<lparr>sessions := newSession # sessions s\<rparr>
      else s)"

definition handleReset :: "int \<Rightarrow> string \<Rightarrow> App \<Rightarrow> App" where
  "handleReset now stamp s =
     (saveSession now stamp s)\<lparr>isRunning := False, time := 0, lapTimes := [], lastLapTime := 0\<rparr>"

definition handleLap :: "App \<Rightarrow> App" where
  "handleLap s =
     (if isRunning s
      then let lapTime = time s - lastLapTime s;
               newLap = \<lparr>id_lap = int (length (lapTimes s)) + 1, time_lap = time s,
                         lapTime = lapTime\<rparr>
           in s\<lparr>lapTimes := newLap # lapTimes s, lastLapTime := time s\<rparr>
      else s)"

definition deleteSession :: "string \<Rightarrow> App \<Rightarrow> App" where
  "deleteSession sessionId s =
     s\<lparr>sessions := filter (\<lambda>session. id_session session \<noteq> sessionId) (sessions s)\<rparr>"

definition clearAllHistory :: "App \<Rightarrow> App" where
  "clearAllHistory s =
     s\<lparr>sessions := [], localStorage := (localStorage s)(STORAGE_KEY := None)\<rparr>"

text \<open>
  The effect \<open>useEffect(() => localStorage.setItem(...), [sessions])\<close>. React runs it
  after every render in which \<open>sessions\<close> is a new array.
\<close>

definition save_effect :: "App \<Rightarrow> App" where
  "save_effect s =
     s\<lparr>localStorage := (localStorage s)(STORAGE_KEY \<mapsto> JSON_stringify (sessions s))\<rparr>"

section \<open>Fastest and slowest lap\<close>

text \<open>
  \<open>Math.min\<close> and \<open>Math.max\<close> of a spread list of integers. With no argument they
  return the infinities, which are numbers of JavaScript but not integers.
\<close>

datatype number = Num int | Infinity | NegInfinity

fun Math_min :: "int list \<Rightarrow> number" where
  "Math_min [] = Infinity"
| "Math_min (x # xs) = Num (fold min xs x)"

fun Math_max :: "int list \<Rightarrow> number" where
  "Math_max [] = NegInfinity"
| "Math_max (x # xs) = Num (fold max xs x)"

text \<open>\<open>None\<close> is the \<open>null\<close> of the source.\<close>

definition getFastest :: "LapTime list \<Rightarrow> number option" where
  "getFastest laps = (if length laps = 0 then None else Some (Math_min (map lapTime laps)))"

definition getSlowest :: "LapTime list \<Rightarrow> number option" where
  "getSlowest laps = (if length laps = 0 then None else Some (Math_max (map lapTime laps)))"

text \<open>
  The conditions under which the lap list renders the two badges of a lap:
  \<open>lap.lapTime === fastest\<close> and \<open>lap.lapTime === slowest && lapTimes.length > 1\<close>,
  with \<open>fastest = getFastest()\<close> and \<open>slowest = getSlowest()\<close> of the current laps.
\<close>

definition fastest_badge :: "LapTime list \<Rightarrow> LapTime \<Rightarrow> bool" where
  "fastest_badge laps lap = (Some (Num (lapTime lap)) = getFastest laps)"

definition slowest_badge :: "LapTime list \<Rightarrow> LapTime \<Rightarrow> bool" where
  "slowest_badge laps lap = (Some (Num (lapTime lap)) = getSlowest laps \<and> length laps > 1)"

section \<open>The component as a transition system\<close>

text \<open>
  What can happen to a mounted component: a click on one of the buttons, or the interval
  firing. The interval exists exactly while \<open>isRunning\<close> holds (the effect on
  \<open>isRunning\<close> creates it and its cleanup clears it), so a tick in a stopped state does
  nothing. A handler that calls \<open>setSessions\<close> installs a new array, and the save effect
  runs after the render that follows; \<open>handleReset\<close> calls it only when it saves a
  session.
\<close>

datatype event = StartStop | Tick | Lap | Reset int string | Delete string | ClearAll

fun step :: "event \<Rightarrow> App \<Rightarrow> App" where
  "step StartStop s = handleStartStop s"
| "step Tick s = (if isRunning s then tick s else s)"
| "step Lap s = handleLap s"
| "step (Reset now stamp) s =
     (if time s > 0 then save_effect (handleReset now stamp s) else handleReset now stamp s)"
| "step (Delete sessionId) s = save_effect (deleteSession sessionId s)"
| "step ClearAll s = save_effect (clearAllHistory s)"

fun run :: "event list \<Rightarrow> App \<Rightarrow> App" where
  "run [] s = s"
| "run (e # es) s = run es (step e s)"

text \<open>
  The state of a freshly mounted component whose history is \<open>ss\<close>: the initial values of
  the \<open>useState\<close> cells.
\<close>

definition initial :: "Session list \<Rightarrow> (string \<rightharpoonup> string) \<Rightarrow> App" where
  "initial ss store =
     \<lparr>time = 0, isRunning = False, lapTimes = [], lastLapTime = 0,
      sessions = ss, localStorage = store\<rparr>"

text \<open>The clock readings (\<open>Date.now()\<close>) of the resets in a sequence of events.\<close>

fun reset_clocks :: "event list \<Rightarrow> int list" where
  "reset_clocks [] = []"
| "reset_clocks (Reset now stamp # es) = now # reset_clocks es"
| "reset_clocks (e # es) = reset_clocks es"

section \<open>JSON text read by the program\<close>

text \<open>
  \<open>JSON.parse\<close> as two passes over the text, each a structural recursion: a scanner that
  cuts the characters into tokens, and a stack machine that builds the tree from the
  tokens. \<open>None\<close> is the \<open>SyntaxError\<close> that \<open>JSON.parse\<close> throws. The grammar is the
  one of ECMA-404: the white space characters are space, tab, line feed and carriage
  return; a number is an optional minus sign, an integer part without a leading zero, an
  optional fraction and an optional exponent; a string may hold any character from U+0020
  on except the quote and the backslash, and the escapes \<open>\" \\ \/ \b \f \n \r \t\<close> and
  \<open>\u\<close> with four hexadecimal digits.
\<close>

datatype token =
    TLBrace | TRBrace | TLBrack | TRBrack | TColon | TComma
  | TString string
  | TValue json

datatype numphase = NMinus | NZero | NInt | NDot | NFrac | NE | NESign | NExp

datatype lex =
    LIdle
  | LStr string
  | LEsc string
  | LHex string nat
  | LNum numphase string
  | LWord string json

definition is_ws :: "char \<Rightarrow> bool" where
  "is_ws c = (c = CHR 0x20 \<or> c = CHR 0x09 \<or> c = CHR 0x0A \<or> c = CHR 0x0D)"

definition is_hex :: "char \<Rightarrow> bool" where
  "is_hex c = (c \<in> set ''0123456789abcdefABCDEF'')"

definition is_exp :: "char \<Rightarrow> bool" where
  "is_exp c = (c = CHR ''e'' \<or> c = CHR ''E'')"

fun num_step :: "numphase \<Rightarrow> char \<Rightarrow> numphase option" where
  "num_step NMinus c =
     (if c = CHR ''0'' then Some NZero else if is_digit c then Some NInt else None)"
| "num_step NZero c =
     (if c = CHR ''.'' then Some NDot else if is_exp c then Some NE else None)"
| "num_step NInt c =
     (if is_digit c then Some NInt else if c = CHR ''.'' then Some NDot
      else if is_exp c then Some NE else None)"
| "num_step NDot c = (if is_digit c then Some NFrac else None)"
| "num_step NFrac c = (if is_digit c then Some NFrac else if is_exp c then Some NE else None)"
| "num_step NE c =
     (if c = CHR ''+'' \<or> c = CHR ''-'' then Some NESign
      else if is_digit c then Some NExp else None)"
| "num_step NESign c = (if is_digit c then Some NExp else None)"
| "num_step NExp c = (if is_digit c then Some NExp else None)"

fun num_final :: "numphase \<Rightarrow> bool" where
  "num_final NZero = True"
| "num_final NInt = True"
| "num_final NFrac = True"
| "num_final NExp = True"
| "num_final ph = False"

definition lex_idle :: "char \<Rightarrow> (token list \<times> lex) option" where
  "lex_idle c =
     (if is_ws c then Some ([], LIdle)
      else if c = CHR ''{'' then Some ([TLBrace], LIdle)
      else if c = CHR ''}'' then Some ([TRBrace], LIdle)
      else if c = CHR ''['' then Some ([TLBrack], LIdle)
      else if c = CHR '']'' then Some ([TRBrack], LIdle)
      else if c = CHR '':'' then Some ([TColon], LIdle)
      else if c = CHR '','' then Some ([TComma], LIdle)
      else if c = CHR 0x22 then Some ([], LStr [])
      else if c = CHR ''-'' then Some ([], LNum NMinus [c])
      else if c = CHR ''0'' then Some ([], LNum NZero [c])
      else if is_digit c then Some ([], LNum NInt [c])
      else if c = CHR ''t'' then Some ([], LWord ''rue'' (JBool True))
      else if c = CHR ''f'' then Some ([], LWord ''alse'' (JBool False))
      else if c = CHR ''n'' then Some ([], LWord ''ull'' JNull)
      else None)"

fun lex_step :: "lex \<Rightarrow> char \<Rightarrow> (token list \<times> lex) option" where
  "lex_step LIdle c = lex_idle c"
| "lex_step (LStr acc) c =
     (if c = CHR 0x22 then Some ([TString acc], LIdle)
      else if c = CHR 0x5C then Some ([], LEsc (acc @ [c]))
      else if (of_char c :: nat) < 32 then None
      else Some ([], LStr (acc @ [c])))"
| "lex_step (LEsc acc) c =
     (if c \<in> set [CHR 0x22, CHR 0x5C, CHR ''/'', CHR ''b'', CHR ''f'', CHR ''n'', CHR ''r'', CHR ''t'']
        then Some ([], LStr (acc @ [c]))
      else if c = CHR ''u'' then Some ([], LHex (acc @ [c]) 4)
      else None)"
| "lex_step (LHex acc k) c =
     (if is_hex c
        then Some ([], if k \<le> 1 then LStr (acc @ [c]) else LHex (acc @ [c]) (k - 1))
      else None)"
| "lex_step (LNum ph acc) c =
     (case num_step ph c of
        Some ph' \<Rightarrow> Some ([], LNum ph' (acc @ [c]))
      | None \<Rightarrow>
          if num_final ph
          then (case lex_idle c of
                  None \<Rightarrow> None
                | Some (ts, st) \<Rightarrow> Some (TValue (JNum acc) # ts, st))
          else None)"
| "lex_step (LWord rest v) c =
     (case rest of
        [] \<Rightarrow> None
      | r # rs \<Rightarrow>
          if c = r then (if rs = [] then Some ([TValue v], LIdle) else Some ([], LWord rs v))
          else None)"

fun lex_end :: "lex \<Rightarrow> token list option" where
  "lex_end LIdle = Some []"
| "lex_end (LNum ph acc) = (if num_final ph then Some [TValue (JNum acc)] else None)"
| "lex_end st = None"

fun tokenize :: "lex \<Rightarrow> string \<Rightarrow> token list option" where
  "tokenize st [] = lex_end st"
| "tokenize st (c # cs) =
     (case lex_step st c of
        None \<Rightarrow> None
      | Some (ts, st') \<Rightarrow>
          (case tokenize st' cs of None \<Rightarrow> None | Some us \<Rightarrow> Some (ts @ us)))"

datatype frame =
    FArr "json list"
  | FObj "(string \<times> json) list"
  | FKey "(string \<times> json) list" string

datatype mode = MValue | MFirst | MObjFirst | MKey | MColon | MAfter | MDone json

fun deliver :: "json \<Rightarrow> frame list \<Rightarrow> (mode \<times> frame list) option" where
  "deliver v [] = Some (MDone v, [])"
| "deliver v (FArr es # st) = Some (MAfter, FArr (es @ [v]) # st)"
| "deliver v (FKey ms k # st) = Some (MAfter, FObj (ms @ [(k, v)]) # st)"
| "deliver v (FObj ms # st) = None"

fun start_value :: "token \<Rightarrow> frame list \<Rightarrow> (mode \<times> frame list) option" where
  "start_value (TValue v) st = deliver v st"
| "start_value (TString s) st = deliver (JStr s) st"
| "start_value TLBrack st = Some (MFirst, FArr [] # st)"
| "start_value TLBrace st = Some (MObjFirst, FObj [] # st)"
| "start_value t st = None"

fun start_key :: "token \<Rightarrow> frame list \<Rightarrow> (mode \<times> frame list) option" where
  "start_key (TString k) (FObj ms # st) = Some (MColon, FKey ms k # st)"
| "start_key t st = None"

fun close_frame :: "token \<Rightarrow> frame list \<Rightarrow> (mode \<times> frame list) option" where
  "close_frame TRBrack (FArr es # st) = deliver (JArr es) st"
| "close_frame TRBrace (FObj ms # st) = deliver (JObj ms) st"
| "close_frame t st = None"

fun parse_step :: "mode \<Rightarrow> frame list \<Rightarrow> token \<Rightarrow> (mode \<times> frame list) option" where
  "parse_step MValue st t = start_value t st"
| "parse_step MFirst st t = (if t = TRBrack then close_frame t st else start_value t st)"
| "parse_step MObjFirst st t = (if t = TRBrace then close_frame t st else start_key t st)"
| "parse_step MKey st t = start_key t st"
| "parse_step MColon st t = (if t = TColon then Some (MValue, st) else None)"
| "parse_step MAfter st t =
     (if t = TComma
      then (case st of
              FArr es # st' \<Rightarrow> Some (MValue, st)
            | FObj ms # st' \<Rightarrow> Some (MKey, st)
            | _ \<Rightarrow> None)
      else close_frame t st)"
| "parse_step (MDone v) st t = None"

fun parse_tokens :: "mode \<Rightarrow> frame list \<Rightarrow> token list \<Rightarrow> json option" where
  "parse_tokens m st [] = (case m of MDone v \<Rightarrow> Some v | _ \<Rightarrow> None)"
| "parse_tokens m st (t # ts) =
     (case parse_step m st t of
        None \<Rightarrow> None
      | Some (m', st') \<Rightarrow> parse_tokens m' st' ts)"

definition JSON_parse :: "string \<Rightarrow> json option" where
  "JSON_parse text =
     (case tokenize LIdle text of
        None \<Rightarrow> None
      | Some ts \<Rightarrow> parse_tokens MValue [] ts)"

text \<open>
  The effect that loads the history when the component mounts. Its result is the value of
  the \<open>sessions\<close> cell afterwards: the initial empty array, unless \<open>getItem\<close> returns a
  non-empty string that \<open>JSON.parse\<close> accepts, in which case \<open>setSessions\<close> installs
  the parsed value. (\<open>if (savedSessions)\<close> is false for \<open>null\<close> and for the empty
  string; the \<open>catch\<close> only logs.)
\<close>

definition load :: "(string \<rightharpoonup> string) \<Rightarrow> json" where
  "load store =
     (case store STORAGE_KEY of
        None \<Rightarrow> JArr []
      | Some savedSessions \<Rightarrow>
          if savedSessions = [] then JArr []
          else (case JSON_parse savedSessions of
                  None \<Rightarrow> JArr []
                | Some parsed \<Rightarrow> parsed))"

text \<open>
  The shape that the interfaces \<open>Session\<close> and \<open>LapTime\<close> declare, as a test on a parsed
  value: an array of objects with a string \<open>id\<close>, a string \<open>date\<close>, a number
  \<open>totalTime\<close> and an array \<open>lapTimes\<close> of objects with the numbers \<open>id\<close>, \<open>time\<close>
  and \<open>lapTime\<close>. (Of a repeated property \<open>JSON.parse\<close> keeps the last value.)
\<close>

definition property :: "(string \<times> json) list \<Rightarrow> string \<Rightarrow> json option" where
  "property ms k = map_of (rev ms) k"

fun is_number :: "json option \<Rightarrow> bool" where
  "is_number (Some (JNum n)) = True"
| "is_number v = False"

fun is_string :: "json option \<Rightarrow> bool" where
  "is_string (Some (JStr s)) = True"
| "is_string v = False"

fun lap_shape :: "json \<Rightarrow> bool" where
  "lap_shape (JObj ms) =
     (is_number (property ms ''id'') \<and> is_number (property ms ''time'')
      \<and> is_number (property ms ''lapTime''))"
| "lap_shape v = False"

fun session_shape :: "json \<Rightarrow> bool" where
  "session_shape (JObj ms) =
     (is_string (property ms ''id'') \<and> is_string (property ms ''date'')
      \<and> is_number (property ms ''totalTime'')
      \<and> (case property ms ''lapTimes'' of
            Some (JArr ls) \<Rightarrow> list_all lap_shape ls
          | _ \<Rightarrow> False))"
| "session_shape v = False"

fun session_list_shape :: "json \<Rightarrow> bool" where
  "session_list_shape (JArr vs) = list_all session_shape vs"
| "session_list_shape v = False"

section \<open>The tokens of a serialised history\<close>

text \<open>
  Used to show that the scanner and the stack machine read back what \<open>JSON_stringify\<close>
  writes: the token lists of a serialised lap, session and session list, and \<open>prepend\<close>,
  which puts the tokens of a piece of text in front of the scanner's result for the rest.
\<close>

definition prepend :: "token list \<Rightarrow> token list option \<Rightarrow> token list option" where
  "prepend ts r = (case r of None \<Rightarrow> None | Some us \<Rightarrow> Some (ts @ us))"

definition lap_tokens :: "LapTime \<Rightarrow> token list" where
  "lap_tokens l =
     [TLBrace, TString ''id'', TColon, TValue (JNum (toString (id_lap l))), TComma,
      TString ''time'', TColon, TValue (JNum (toString (time_lap l))), TComma,
      TString ''lapTime'', TColon, TValue (JNum (toString (lapTime l))), TRBrace]"

fun list_tokens :: "token list list \<Rightarrow> token list" where
  "list_tokens [] = []"
| "list_tokens [x] = x"
| "list_tokens (x # y # ys) = x @ TComma # list_tokens (y # ys)"

definition session_tokens :: "Session \<Rightarrow> token list" where
  "session_tokens s =
     [TLBrace, TString ''id'', TColon, TString (quote_body (id_session s)), TComma,
      TString ''date'', TColon, TString (quote_body (date s)), TComma,
      TString ''totalTime'', TColon, TValue (JNum (toString (totalTime s))), TComma,
      TString ''lapTimes'', TColon, TLBrack]
     @ list_tokens (map lap_tokens (lapTimes_session s)) @ [TRBrack, TRBrace]"

definition sessions_tokens :: "Session list \<Rightarrow> token list" where
  "sessions_tokens ss = TLBrack # list_tokens (map session_tokens ss) @ [TRBrack]"

section \<open>An invariant of the timer\<close>

text \<open>
  The predicates of the invariant that the proofs below maintain: \<open>last_mark\<close> is the
  cumulative time of the most recent lap of a list (0 without laps), \<open>laps_ok\<close> says of
  every lap that its split is the distance to the lap before it and that its number is
  its position in recording order.
\<close>

fun last_mark :: "LapTime list \<Rightarrow> int" where
  "last_mark [] = 0"
| "last_mark (l # ls) = time_lap l"

fun laps_ok :: "LapTime list \<Rightarrow> bool" where
  "laps_ok [] = True"
| "laps_ok (l # ls) =
     (lapTime l = time_lap l - last_mark ls \<and> 0 \<le> last_mark ls \<and> last_mark ls \<le> time_lap l
      \<and> id_lap l = int (length ls) + 1 \<and> laps_ok ls)"

definition timer_inv :: "App \<Rightarrow> bool" where
  "timer_inv s =
     (0 \<le> lastLapTime s \<and> lastLapTime s \<le> time s
      \<and> lastLapTime s = last_mark (lapTimes s) \<and> laps_ok (lapTimes s))"

section \<open>Theorems\<close>

text \<open>
  C1. For every state, \<open>handleReset\<close> creates a session exactly when the elapsed time
  before the reset is strictly positive. If it is, exactly one session is put in front of
  the history, with \<open>totalTime\<close> the elapsed time and \<open>lapTimes\<close> the laps before the
  reset in their order; if it is zero the history is unchanged. In both cases the timer
  is afterwards stopped, with elapsed time 0, no laps and last lap time 0.
\<close>

theorem handleReset_session:
  "(0 < time s \<longrightarrow>
      (\<exists>new. sessions (handleReset now stamp s) = new # sessions s
         \<and> totalTime new = time s \<and> lapTimes_session new = lapTimes s
         \<and> id_session new = toString now \<and> date new = stamp))
   \<and> (time s = 0 \<longrightarrow> sessions (handleReset now stamp s) = sessions s)
   \<and> (length (sessions (handleReset now stamp s)) = Suc (length (sessions s)) \<longleftrightarrow> 0 < time s)
   \<and> (sessions (handleReset now stamp s) \<noteq> sessions s \<longleftrightarrow> 0 < time s)
   \<and> isRunning (handleReset now stamp s) = False
   \<and> time (handleReset now stamp s) = 0
   \<and> lapTimes (handleReset now stamp s) = []
   \<and> lastLapTime (handleReset now stamp s) = 0"
  by (simp add: handleReset_def saveSession_def Let_def)

theorem handleReset_session_witness:
  "0 < time \<lparr>time = 1230, isRunning = True,
       lapTimes = [\<lparr>id_lap = 1, time_lap = 500, lapTime = 500\<rparr>], lastLapTime = 500,
       sessions = [], localStorage = Map.empty\<rparr>
   \<and> (\<exists>new. sessions (handleReset 1000 ''2024-01-01T00:00:00.000Z''
          \<lparr>time = 1230, isRunning = True,
            lapTimes = [\<lparr>id_lap = 1, time_lap = 500, lapTime = 500\<rparr>], lastLapTime = 500,
            sessions = [], localStorage = Map.empty\<rparr>) = [new]
        \<and> totalTime new = 1230
        \<and> lapTimes_session new = [\<lparr>id_lap = 1, time_lap = 500, lapTime = 500\<rparr>])
   \<and> time \<lparr>time = 0, isRunning = False, lapTimes = [], lastLapTime = 0,
         sessions = [], localStorage = Map.empty\<rparr> = 0
   \<and> sessions (handleReset 1000 ''2024-01-01T00:00:00.000Z''
         \<lparr>time = 0, isRunning = False, lapTimes = [], lastLapTime = 0,
           sessions = [], localStorage = Map.empty\<rparr>) = []"
  using handleReset_session [of "\<lparr>time = 1230, isRunning = True,
       lapTimes = [\<lparr>id_lap = 1, time_lap = 500, lapTime = 500\<rparr>], lastLapTime = 500,
       sessions = [], localStorage = Map.empty\<rparr>" 1000 "''2024-01-01T00:00:00.000Z''"]
    handleReset_session [of "\<lparr>time = 0, isRunning = False, lapTimes = [], lastLapTime = 0,
       sessions = [], localStorage = Map.empty\<rparr>" 1000 "''2024-01-01T00:00:00.000Z''"]
  by auto

text \<open>
  C5. In every state in which the timer is not running, \<open>handleLap\<close> changes nothing:
  the laps, the last lap time, the elapsed time and every other part of the state are as
  before. (The handler is a total function: there is no error to raise.)
\<close>

theorem handleLap_paused:
  "\<not> isRunning s \<Longrightarrow>
     handleLap s = s
     \<and> lapTimes (handleLap s) = lapTimes s
     \<and> lastLapTime (handleLap s) = lastLapTime s
     \<and> time (handleLap s) = time s"
  by (simp add: handleLap_def)

theorem handleLap_paused_witness:
  "\<not> isRunning \<lparr>time = 1230, isRunning = False,
       lapTimes = [\<lparr>id_lap = 1, time_lap = 500, lapTime = 500\<rparr>], lastLapTime = 500,
       sessions = [], localStorage = Map.empty\<rparr>
   \<and> lapTimes (handleLap \<lparr>time = 1230, isRunning = False,
       lapTimes = [\<lparr>id_lap = 1, time_lap = 500, lapTime = 500\<rparr>], lastLapTime = 500,
       sessions = [], localStorage = Map.empty\<rparr>)
       = [\<lparr>id_lap = 1, time_lap = 500, lapTime = 500\<rparr>]
   \<and> lastLapTime (handleLap \<lparr>time = 1230, isRunning = False,
       lapTimes = [\<lparr>id_lap = 1, time_lap = 500, lapTime = 500\<rparr>], lastLapTime = 500,
       sessions = [], localStorage = Map.empty\<rparr>) = 500
   \<and> time (handleLap \<lparr>time = 1230, isRunning = False,
       lapTimes = [\<lparr>id_lap = 1, time_lap = 500, lapTime = 500\<rparr>], lastLapTime = 500,
       sessions = [], localStorage = Map.empty\<rparr>) = 1230"
  using handleLap_paused [of "\<lparr>time = 1230, isRunning = False,
       lapTimes = [\<lparr>id_lap = 1, time_lap = 500, lapTime = 500\<rparr>], lastLapTime = 500,
       sessions = [], localStorage = Map.empty\<rparr>"]
  by simp

lemma digit_cases:
  "(d::nat) < 10 \<Longrightarrow>
     d = 0 \<or> d = 1 \<or> d = 2 \<or> d = 3 \<or> d = 4 \<or> d = 5 \<or> d = 6 \<or> d = 7 \<or> d = 8 \<or> d = 9"
  by arith

lemma digit_val_digit_char: "d < 10 \<Longrightarrow> digit_val (digit_char d) = d"
  by (drule digit_cases, elim disjE) (simp_all add: digit_val_def digit_char_def)

lemma is_digit_digit_char: "d < 10 \<Longrightarrow> is_digit (digit_char d)"
  by (drule digit_cases, elim disjE) (simp_all add: is_digit_def digit_char_def)

lemma read_nat_snoc: "read_nat (s @ [c]) = 10 * read_nat s + digit_val c"
  by (simp add: read_nat_def)

lemma read_nat_digits: "read_nat (digits n) = n"
proof (induction n rule: digits.induct)
  case (1 n)
  show ?case
  proof (cases "n < 10")
    case True
    then show ?thesis by (simp add: digits.simps[of n] read_nat_def digit_val_digit_char)
  next
    case False
    then have "read_nat (digits (n div 10)) = n div 10" using 1 by simp
    with False show ?thesis
      by (simp add: digits.simps[of n] read_nat_snoc digit_val_digit_char)
  qed
qed

lemma digits_all_digit: "c \<in> set (digits n) \<Longrightarrow> is_digit c"
proof (induction n rule: digits.induct)
  case (1 n)
  show ?case
  proof (cases "n < 10")
    case True
    with 1(2) show ?thesis by (simp add: digits.simps[of n] is_digit_digit_char)
  next
    case False
    with 1 show ?thesis
      by (auto simp add: digits.simps[of n] is_digit_digit_char)
  qed
qed

lemma length_digits_small: "n < 10 \<Longrightarrow> length (digits n) = 1"
  by (simp add: digits.simps[of n])

lemma length_digits_two: "10 \<le> n \<Longrightarrow> n < 100 \<Longrightarrow> length (digits n) = 2"
  by (simp add: digits.simps[of n] length_digits_small)

lemma length_digits_ge: "10 \<le> n \<Longrightarrow> 2 \<le> length (digits n)"
  by (simp add: digits.simps[of n] digits.simps[of "n div 10"])

lemma length_digits_wide: "100 \<le> n \<Longrightarrow> 3 \<le> length (digits n)"
  using length_digits_ge[of "n div 10"] by (simp add: digits.simps[of n])

lemma read_nat_zeros: "read_nat (replicate k CHR ''0'' @ s) = read_nat s"
proof -
  have z: "foldl (\<lambda>a c. 10 * a + digit_val c) 0 (replicate k CHR ''0'') = 0"
    by (induction k) (simp_all add: digit_val_def)
  show ?thesis by (simp add: read_nat_def z)
qed

lemma js_rem_nonneg: "0 \<le> a \<Longrightarrow> 0 < b \<Longrightarrow> js_rem a b = a mod b"
  by (cases "a = 0") (simp_all add: js_rem_def)

lemma digits_small: "n < 10 \<Longrightarrow> digits n = [digit_char n]"
  by (simp add: digits.simps[of n])

lemma digits_step: "10 \<le> n \<Longrightarrow> digits n = digits (n div 10) @ [digit_char (n mod 10)]"
  by (simp add: digits.simps[of n])

lemmas eval_digits = digits_small digits_step digit_char_def toString_def

lemma toString_nonneg: "0 \<le> n \<Longrightarrow> toString n = digits (nat n)"
  by (simp add: toString_def)

lemma bitlen_0: "bitlen 0 = 0"
  by (simp add: bitlen.simps [of 0])

lemma bitlen_pos: "0 < n \<Longrightarrow> bitlen n = Suc (bitlen (n div 2))"
  by (simp add: bitlen.simps [of n])

lemma bitlen_upper: "n < 2 ^ bitlen n"
proof (induction n rule: bitlen.induct)
  case (1 n)
  show ?case
  proof (cases "n = 0")
    case True
    then show ?thesis by (simp add: bitlen_0)
  next
    case False
    then have "n div 2 < 2 ^ bitlen (n div 2)" using 1 by simp
    then have "n < 2 * 2 ^ bitlen (n div 2)" by linarith
    with False show ?thesis by (simp add: bitlen_pos)
  qed
qed

lemma bitlen_lower: "0 < n \<Longrightarrow> 2 ^ (bitlen n - 1) \<le> n"
proof (induction n rule: bitlen.induct)
  case (1 n)
  show ?case
  proof (cases "n div 2 = 0")
    case True
    with 1(2) show ?thesis by (simp add: bitlen_pos bitlen_0)
  next
    case False
    then have pos: "0 < n div 2" by simp
    then have "2 ^ (bitlen (n div 2) - 1) \<le> n div 2" using 1 by simp
    then have "2 * 2 ^ (bitlen (n div 2) - 1) \<le> n" by linarith
    moreover have "bitlen (n div 2) = Suc (bitlen (n div 2) - 1)"
      using pos by (simp add: bitlen_pos [of "n div 2"])
    then have "(2::nat) ^ bitlen (n div 2) = 2 * 2 ^ (bitlen (n div 2) - 1)"
      by (metis power_Suc)
    ultimately have "2 ^ bitlen (n div 2) \<le> n" by simp
    then show ?thesis using 1(2) by (simp add: bitlen_pos [of n])
  qed
qed

lemma bitlen_le: "n < 2 ^ k \<Longrightarrow> bitlen n \<le> k"
proof (rule ccontr)
  assume n: "n < 2 ^ k" and "\<not> bitlen n \<le> k"
  then have k: "k \<le> bitlen n - 1" and pos: "0 < n" by (auto simp add: bitlen_0 intro: gr0I)
  have "(2::nat) ^ k \<le> 2 ^ (bitlen n - 1)" using k by (rule power_increasing) simp
  also have "\<dots> \<le> n" by (rule bitlen_lower [OF pos])
  finally show False using n by simp
qed

lemma bitlen_gt: "2 ^ k \<le> n \<Longrightarrow> k < bitlen n"
proof (rule ccontr)
  assume n: "2 ^ k \<le> n" and "\<not> k < bitlen n"
  then have "bitlen n \<le> k" by simp
  then have "(2::nat) ^ bitlen n \<le> 2 ^ k" by (rule power_increasing) simp
  with bitlen_upper [of n] n show False by simp
qed

lemma to_double_small: "c < 2 ^ 53 \<Longrightarrow> to_double c = c"
  using bitlen_le [of c 53] by (simp add: to_double_def)

lemma to_double_large: "2 ^ 53 \<le> c \<Longrightarrow> 2 ^ 53 \<le> to_double c"
proof -
  assume c: "2 ^ 53 \<le> c"
  then have len: "53 < bitlen c" by (rule bitlen_gt)
  define sh where "sh = bitlen c - 53"
  have sh: "bitlen c = 53 + sh" "0 < sh" using len by (simp_all add: sh_def)
  have "2 ^ (bitlen c - 1) \<le> c" using c by (intro bitlen_lower) simp
  then have "2 ^ 52 * 2 ^ sh \<le> c" using sh by (simp add: power_add)
  then have q: "2 ^ 52 \<le> c div 2 ^ sh" by (simp add: less_eq_div_iff_mult_less_eq)
  have "(2::nat) ^ 53 = 2 ^ 52 * 2 ^ 1" by simp
  also have "\<dots> \<le> 2 ^ 52 * 2 ^ sh" using sh(2) by (intro mult_le_mono2 power_increasing) simp_all
  also have "\<dots> \<le> c div 2 ^ sh * 2 ^ sh" using q by (rule mult_le_mono1)
  finally have low: "2 ^ 53 \<le> c div 2 ^ sh * 2 ^ sh" .
  have "c div 2 ^ sh * 2 ^ sh \<le> (c div 2 ^ sh + 1) * 2 ^ sh" by simp
  with low have high: "2 ^ 53 \<le> (c div 2 ^ sh + 1) * 2 ^ sh" by linarith
  show ?thesis using len low high by (simp add: to_double_def Let_def sh_def del: power_Suc)
qed

lemma shortest_small: "v < 2 ^ 53 \<Longrightarrow> shortest v z = v"
proof (induction z)
  case 0
  show ?case by simp
next
  case (Suc z)
  define p :: nat where "p = 10 ^ Suc z"
  define lo where "lo = v div p * p"
  have lo_le: "lo \<le> v" by (simp add: lo_def)
  have p_pos: "0 < p" by (simp add: p_def)
  have hi_gt: "v < lo + p"
  proof -
    have "v = lo + v mod p" by (simp add: lo_def)
    moreover have "v mod p < p" using p_pos by simp
    ultimately show ?thesis by linarith
  qed
  have lo_small: "to_double lo = lo" using lo_le Suc.prems by (intro to_double_small) simp
  have hi_no: "to_double (lo + p) \<noteq> v"
  proof (cases "lo + p < 2 ^ 53")
    case True
    then have "to_double (lo + p) = lo + p" by (rule to_double_small)
    with hi_gt show ?thesis by simp
  next
    case False
    then have "2 ^ 53 \<le> to_double (lo + p)" by (intro to_double_large) simp
    with Suc.prems show ?thesis by simp
  qed
  have "shortest v (Suc z) = (if 0 < lo \<and> lo = v then lo else shortest v z)"
    using hi_no lo_small
    by (auto simp add: Let_def p_def [symmetric] lo_def [symmetric] simp del: power_Suc)
  then show ?case using Suc.IH [OF Suc.prems] by simp
qed

lemma Number_toString_small: "\<bar>n\<bar> < 2 ^ 53 \<Longrightarrow> Number_toString n = toString n"
proof -
  assume n: "\<bar>n\<bar> < 2 ^ 53"
  define w where "w = nat \<bar>n\<bar>"
  have v: "w < 2 ^ 53" using n by (simp add: w_def nat_less_iff)
  have "(2::nat) ^ 53 < 10 ^ 21" by simp
  with v have small: "w < 10 ^ 21" by linarith
  have sh: "shortest w (length (digits w)) = w" by (rule shortest_small [OF v])
  have body: "Number_toString n = (if n < 0 then CHR ''-'' # digits w else digits w)"
    using small by (simp add: Number_toString_def Let_def w_def [symmetric] sh)
  show ?thesis
  proof (cases "n < 0")
    case True
    then have "w = nat (- n)" by (simp add: w_def)
    with True body show ?thesis by (simp add: toString_def)
  next
    case False
    then have "w = nat n" by (simp add: w_def)
    with False body show ?thesis by (simp add: toString_def)
  qed
qed

lemma js_divide_floor:
  assumes a: "a < 2 ^ 53" and b: "0 < b"
  shows "fst (js_divide a b) div 2 ^ snd (js_divide a b) = a div b"
proof (cases "a = 0")
  case True
  then show ?thesis by (simp add: js_divide_def)
next
  case False
  then have a1: "1 \<le> a" by simp
  define k where "k = 64 + bitlen b"
  define P :: nat where "P = 2 ^ k"
  define n where "n = a * P div b"
  define sh where "sh = bitlen n - 53"
  define S :: nat where "S = 2 ^ sh"
  define q where "q = n div S"
  define r where "r = n mod S"
  define half :: nat where "half = 2 ^ (sh - 1)"
  define up where "up = (half < r \<or> (r = half \<and> (a * P mod b \<noteq> 0 \<or> odd q)))"
  define m where "m = (if up then q + 1 else q)"
  have quot: "js_divide a b = (m * S, k)"
    using False
    by (simp add: js_divide_def Let_def m_def up_def half_def r_def q_def S_def sh_def n_def
          P_def k_def)
  have Ppos: "0 < P" and Spos: "0 < S" by (simp_all add: P_def S_def)
  \<comment> \<open>the scaled quotient has more than 64 bits\<close>
  have "b < 2 ^ bitlen b" by (rule bitlen_upper)
  then have "2 ^ 64 * b \<le> 2 ^ 64 * 2 ^ bitlen b" by simp
  also have "\<dots> = P" by (simp add: P_def k_def power_add)
  also have "\<dots> \<le> a * P" using a1 by simp
  finally have "2 ^ 64 \<le> n" using b by (simp add: n_def less_eq_div_iff_mult_less_eq)
  then have len: "64 < bitlen n" by (rule bitlen_gt)
  then have L: "bitlen n = 53 + sh" and sh1: "1 \<le> sh" by (simp_all add: sh_def)
  have npos: "0 < n" using \<open>2 ^ 64 \<le> n\<close> by (simp add: less_le_trans [of 0 "2 ^ 64"])
  \<comment> \<open>and fewer than 53 + k\<close>
  have nb: "n * b \<le> a * P" by (simp add: n_def)
  have "n \<le> n * b" using b by simp
  also have "\<dots> \<le> a * P" by (rule nb)
  also have "\<dots> < 2 ^ 53 * P" using a Ppos by simp
  finally have "n < 2 ^ (53 + k)" by (simp add: P_def power_add)
  then have "bitlen n \<le> 53 + k" by (rule bitlen_le)
  then have shk: "sh \<le> k" using L by simp
  define D :: nat where "D = 2 ^ (k - sh)"
  have Dpos: "0 < D" by (simp add: D_def)
  have PSD: "P = D * S" using shk by (simp add: P_def D_def S_def power_add [symmetric])
  \<comment> \<open>the divisor is smaller than two grid steps\<close>
  have "2 ^ (bitlen n - 1) \<le> n" by (rule bitlen_lower [OF npos])
  then have "2 ^ 52 * S \<le> n" using L by (simp add: S_def power_add)
  then have "2 ^ 52 * S * b \<le> n * b" by simp
  also have "\<dots> \<le> a * P" by (rule nb)
  also have "\<dots> < 2 ^ 53 * P" using a Ppos by simp
  also have "\<dots> = 2 ^ 52 * S * (2 * D)" by (simp add: PSD)
  finally have b2D: "b < 2 * D" by simp
  \<comment> \<open>the significand before rounding\<close>
  have "q = a * P div (b * S)" by (simp add: q_def n_def div_mult2_eq)
  also have "\<dots> = (a * D) * S div (b * S)" by (simp add: PSD mult.assoc)
  also have "\<dots> = a * D div b" using Spos by simp
  finally have qaD: "q = a * D div b" .
  have "q div D = a * D div (b * D)" by (simp add: qaD div_mult2_eq)
  also have "\<dots> = a div b" using Dpos by simp
  finally have qD: "q div D = a div b" .
  have res: "m * S div P = m div D" using Spos by (simp add: PSD)
  have "m div D = a div b"
  proof (cases up)
    case False
    then show ?thesis by (simp add: m_def qD)
  next
    case True
    then have rh: "half \<le> r" by (auto simp add: up_def)
    have S2: "S = 2 * half" using sh1 by (simp add: S_def half_def power_eq_if)
    have "q * S + half \<le> q * S + r" using rh by simp
    also have "\<dots> = n" by (simp add: q_def r_def)
    finally have "(q * S + half) * b \<le> n * b" by simp
    also have "\<dots> \<le> a * P" by (rule nb)
    finally have "(2 * q + 1) * half * b \<le> 2 * (a * D) * half"
      by (simp add: PSD S2 algebra_simps)
    then have "((2 * q + 1) * b) * half \<le> (2 * (a * D)) * half" by (simp add: algebra_simps)
    moreover have "0 < half" by (simp add: half_def)
    ultimately have key: "(2 * q + 1) * b \<le> 2 * (a * D)" by simp
    have "q + 1 < (a div b + 1) * D"
    proof (rule ccontr)
      assume "\<not> q + 1 < (a div b + 1) * D"
      then have ge: "(a div b + 1) * D \<le> q + 1" by simp
      have "a < (a div b + 1) * b" using b by (simp add: dividend_less_div_times add.commute)
      then have "a + 1 \<le> (a div b + 1) * b" by simp
      then have "(a + 1) * (2 * D) \<le> ((a div b + 1) * b) * (2 * D)" by (rule mult_le_mono1)
      also have "\<dots> = (2 * ((a div b + 1) * D)) * b" by (simp add: algebra_simps)
      also have "\<dots> \<le> (2 * (q + 1)) * b" using ge by (intro mult_le_mono1 mult_le_mono2)
      also have "\<dots> = (2 * q + 1) * b + b" by (simp add: algebra_simps)
      also have "\<dots> \<le> 2 * (a * D) + b" using key by simp
      finally have "2 * D \<le> b" by (simp add: algebra_simps)
      with b2D show False by simp
    qed
    then have "(q + 1) div D < a div b + 1" using Dpos by (simp add: div_less_iff_less_mult)
    moreover have "a div b \<le> (q + 1) div D" using qD div_le_mono [of q "q + 1" D] by simp
    ultimately show ?thesis using True by (simp add: m_def)
  qed
  then show ?thesis using res by (simp add: quot P_def)
qed

lemma Math_floor_div_small:
  "0 \<le> a \<Longrightarrow> a < 2 ^ 53 \<Longrightarrow> 0 < b \<Longrightarrow> Math_floor_div a b = a div b"
proof -
  assume a: "0 \<le> a" "a < 2 ^ 53" and b: "0 < b"
  have "nat \<bar>a\<bar> < 2 ^ 53" using a by (simp add: nat_less_iff)
  moreover have "0 < nat b" using b by simp
  ultimately have "fst (js_divide (nat \<bar>a\<bar>) (nat b)) div 2 ^ snd (js_divide (nat \<bar>a\<bar>) (nat b))
      = nat \<bar>a\<bar> div nat b"
    by (rule js_divide_floor)
  moreover have "int (nat \<bar>a\<bar> div nat b) = a div b"
    using a b by (simp add: zdiv_int)
  ultimately show ?thesis using a by (simp add: Math_floor_div_def case_prod_beta)
qed

lemma bitlen_range: "2 ^ k \<le> n \<Longrightarrow> n < 2 ^ Suc k \<Longrightarrow> bitlen n = Suc k"
  using bitlen_gt [of k n] bitlen_le [of n "Suc k"] by simp

lemma shortest_skip:
  "v div 10 ^ Suc z = 0 \<or> to_double (v div 10 ^ Suc z * 10 ^ Suc z) \<noteq> v \<Longrightarrow>
   to_double (v div 10 ^ Suc z * 10 ^ Suc z + 10 ^ Suc z) \<noteq> v \<Longrightarrow>
   shortest v (Suc z) = shortest v z"
  by (auto simp add: Let_def simp del: power_Suc)

lemma shortest_lo:
  "0 < v div 10 ^ Suc z \<Longrightarrow> to_double (v div 10 ^ Suc z * 10 ^ Suc z) = v \<Longrightarrow>
   to_double (v div 10 ^ Suc z * 10 ^ Suc z + 10 ^ Suc z) \<noteq> v \<Longrightarrow>
   shortest v (Suc z) = v div 10 ^ Suc z * 10 ^ Suc z"
  by (auto simp add: Let_def simp del: power_Suc)

lemma print_minutes: "Number_toString 20148763660243820544 = ''20148763660243820000''"
proof -
  define v :: nat where "v = 20148763660243820544"
  have b65: "\<And>n. 18446744073709551616 \<le> n \<Longrightarrow> n < 36893488147419103232 \<Longrightarrow> bitlen n = 65"
    using bitlen_range [of 64] by simp
  have b67: "\<And>n. 73786976294838206464 \<le> n \<Longrightarrow> n < 147573952589676412928 \<Longrightarrow> bitlen n = 67"
    using bitlen_range [of 66] by simp
  note td = to_double_def Let_def b65 b67 bitlen_0
  have s20: "shortest v 20 = shortest v 19"
    using shortest_skip [of v 19] by (simp add: v_def td)
  have s19: "shortest v 19 = shortest v 18"
    using shortest_skip [of v 18] by (simp add: v_def td)
  have s18: "shortest v 18 = shortest v 17"
    using shortest_skip [of v 17] by (simp add: v_def td)
  have s17: "shortest v 17 = shortest v 16"
    using shortest_skip [of v 16] by (simp add: v_def td)
  have s16: "shortest v 16 = shortest v 15"
    using shortest_skip [of v 15] by (simp add: v_def td)
  have s15: "shortest v 15 = shortest v 14"
    using shortest_skip [of v 14] by (simp add: v_def td)
  have s14: "shortest v 14 = shortest v 13"
    using shortest_skip [of v 13] by (simp add: v_def td)
  have s13: "shortest v 13 = shortest v 12"
    using shortest_skip [of v 12] by (simp add: v_def td)
  have s12: "shortest v 12 = shortest v 11"
    using shortest_skip [of v 11] by (simp add: v_def td)
  have s11: "shortest v 11 = shortest v 10"
    using shortest_skip [of v 10] by (simp add: v_def td)
  have s10: "shortest v 10 = shortest v 9"
    using shortest_skip [of v 9] by (simp add: v_def td)
  have s9: "shortest v 9 = shortest v 8"
    using shortest_skip [of v 8] by (simp add: v_def td)
  have s8: "shortest v 8 = shortest v 7"
    using shortest_skip [of v 7] by (simp add: v_def td)
  have s7: "shortest v 7 = shortest v 6"
    using shortest_skip [of v 6] by (simp add: v_def td)
  have s6: "shortest v 6 = shortest v 5"
    using shortest_skip [of v 5] by (simp add: v_def td)
  have s5: "shortest v 5 = shortest v 4"
    using shortest_skip [of v 4] by (simp add: v_def td)
  have s4: "shortest v 4 = 20148763660243820000"
    using shortest_lo [of v 3] by (simp add: v_def td)
  have len: "length (digits v) = 20" by (simp add: v_def digits_small digits_step)
  have "shortest v (length (digits v)) = 20148763660243820000"
    by (simp only: len s20 s19 s18 s17 s16 s15 s14 s13 s12 s11 s10 s9 s8 s7 s6 s5 s4)
  then show ?thesis
    by (simp add: Number_toString_def Let_def v_def [symmetric] digits_small digits_step
          digit_char_def)
qed

lemma format_fields:
  assumes "0 \<le> x" and "x < 2 ^ 53"
  shows "formatTime x =
     padStart 2 CHR ''0'' (digits (nat (x div 1000 div 60))) @ '':'' @
     padStart 2 CHR ''0'' (digits (nat (x div 1000 mod 60))) @ ''.'' @
     padStart 2 CHR ''0'' (digits (nat (x mod 1000 div 10)))"
proof -
  have a: "0 \<le> x div 1000" using assms by simp
  have a3: "x div 1000 < 2 ^ 53" using assms by simp
  have a2: "0 \<le> x div 1000 div 60" using a by simp
  have b: "js_rem (x div 1000) 60 = x div 1000 mod 60" using a by (simp add: js_rem_nonneg)
  have c: "js_rem x 1000 = x mod 1000" using assms by (simp add: js_rem_nonneg)
  have d1: "0 \<le> x div 1000 mod 60" by simp
  have d2: "0 \<le> x mod 1000 div 10" by simp
  have c0: "0 \<le> x mod 1000" by simp
  have c3: "x mod 1000 < 2 ^ 53"
  proof -
    have "x mod 1000 < 1000" by simp
    then show ?thesis by simp
  qed
  have f1: "Math_floor_div x 1000 = x div 1000"
    using assms by (intro Math_floor_div_small) simp_all
  have f2: "Math_floor_div (x div 1000) 60 = x div 1000 div 60"
    using a a3 by (intro Math_floor_div_small) simp_all
  have f3: "Math_floor_div (x mod 1000) 10 = x mod 1000 div 10"
    using c0 c3 by (intro Math_floor_div_small) simp_all
  have m3: "x div 1000 div 60 < 2 ^ 53" using a3 a by simp
  have s3: "x div 1000 mod 60 < 2 ^ 53"
  proof -
    have "x div 1000 mod 60 < 60" by simp
    then show ?thesis by simp
  qed
  have h3: "x mod 1000 div 10 < 2 ^ 53" using c3 c0 by simp
  have n1: "Number_toString (x div 1000 div 60) = digits (nat (x div 1000 div 60))"
    using a2 m3 by (simp add: Number_toString_small toString_nonneg)
  have n2: "Number_toString (x div 1000 mod 60) = digits (nat (x div 1000 mod 60))"
    using d1 s3 by (simp add: Number_toString_small toString_nonneg)
  have n3: "Number_toString (x mod 1000 div 10) = digits (nat (x mod 1000 div 10))"
    using d2 h3 by (simp add: Number_toString_small toString_nonneg)
  show ?thesis
    unfolding formatTime_def Let_def f1 b c f2 f3 by (simp only: n1 n2 n3)
qed

lemma length_pad2: "length s \<le> 2 \<Longrightarrow> length (padStart 2 c s) = 2"
  by (simp add: padStart_def)

lemma length_pad2_ge: "2 \<le> length (padStart 2 c s)"
  by (simp add: padStart_def)

lemma length_digits_lt100: "n < 100 \<Longrightarrow> length (digits n) \<le> 2"
  by (cases "n < 10") (simp_all add: length_digits_small length_digits_two)

lemma read_nat_pad: "read_nat (padStart 2 CHR ''0'' s) = read_nat s"
  by (simp add: padStart_def read_nat_zeros)

lemma pad_all_digit: "c \<in> set (padStart 2 CHR ''0'' (digits n)) \<Longrightarrow> is_digit c"
proof -
  assume "c \<in> set (padStart 2 CHR ''0'' (digits n))"
  then have "c = CHR ''0'' \<or> c \<in> set (digits n)"
    by (auto simp add: padStart_def)
  then show ?thesis
  proof
    assume "c = CHR ''0''" then show ?thesis by (simp add: is_digit_def)
  next
    assume "c \<in> set (digits n)" then show ?thesis by (rule digits_all_digit)
  qed
qed

text \<open>
  C7. For every non-negative number of milliseconds \<open>x\<close> below \<open>2 ^ 53\<close>, the integers
  that a JavaScript number holds exactly, \<open>formatTime x\<close> is
  \<open>MM:SS.CC\<close>: the minutes \<open>x div 1000 div 60\<close> (not reduced modulo 60, so the field
  is wider than two digits from 100 minutes on), the seconds \<open>x div 1000 mod 60\<close> and the
  hundredths \<open>x mod 1000 div 10\<close>, each in decimal and padded with zeros to at least two
  digits. \<open>formatTime 0\<close> is \<open>00:00.00\<close> and \<open>formatTime 61234\<close> is \<open>01:01.23\<close>.
\<close>

theorem formatTime_fields:
  "(0 \<le> x \<longrightarrow> x < 2 ^ 53 \<longrightarrow>
     (\<exists>m s c. formatTime x = m @ '':'' @ s @ ''.'' @ c
        \<and> m = padStart 2 CHR ''0'' (toString (x div 1000 div 60))
        \<and> s = padStart 2 CHR ''0'' (toString (x div 1000 mod 60))
        \<and> c = padStart 2 CHR ''0'' (toString (x mod 1000 div 10))
        \<and> (\<forall>ch \<in> set (m @ s @ c). is_digit ch)
        \<and> int (read_nat m) = x div 1000 div 60
        \<and> int (read_nat s) = x div 1000 mod 60
        \<and> int (read_nat c) = x mod 1000 div 10
        \<and> length s = 2 \<and> length c = 2 \<and> 2 \<le> length m
        \<and> (x div 1000 div 60 < 100 \<longrightarrow> length m = 2)
        \<and> (100 \<le> x div 1000 div 60 \<longrightarrow> 3 \<le> length m)))
   \<and> formatTime 0 = ''00:00.00''
   \<and> formatTime 61234 = ''01:01.23''"
proof (intro conjI impI)
  assume x: "0 \<le> x" and safe: "x < 2 ^ 53"
  let ?M = "nat (x div 1000 div 60)" and ?S = "nat (x div 1000 mod 60)"
    and ?C = "nat (x mod 1000 div 10)"
  have a: "0 \<le> x div 1000" using x by simp
  have m0: "0 \<le> x div 1000 div 60" using a by simp
  have s0: "0 \<le> x div 1000 mod 60" by simp
  have c0: "0 \<le> x mod 1000 div 10" by simp
  have sb: "?S < 100"
  proof -
    have "x div 1000 mod 60 < 60" by simp
    then show ?thesis by linarith
  qed
  have cb: "?C < 100"
  proof -
    have "x mod 1000 < 1000" by simp
    then have "x mod 1000 div 10 < 100" by linarith
    then show ?thesis by linarith
  qed
  have tm: "toString (x div 1000 div 60) = digits ?M" by (rule toString_nonneg[OF m0])
  have ts: "toString (x div 1000 mod 60) = digits ?S" by (rule toString_nonneg[OF s0])
  have tc: "toString (x mod 1000 div 10) = digits ?C" by (rule toString_nonneg[OF c0])
  have dig: "\<forall>ch \<in> set (padStart 2 CHR ''0'' (digits ?M) @ padStart 2 CHR ''0'' (digits ?S)
                 @ padStart 2 CHR ''0'' (digits ?C)). is_digit ch"
    using pad_all_digit by auto
  have rm: "int (read_nat (padStart 2 CHR ''0'' (digits ?M))) = x div 1000 div 60"
    using m0 by (simp add: read_nat_pad read_nat_digits)
  have rs: "int (read_nat (padStart 2 CHR ''0'' (digits ?S))) = x div 1000 mod 60"
    using s0 by (simp add: read_nat_pad read_nat_digits)
  have rc: "int (read_nat (padStart 2 CHR ''0'' (digits ?C))) = x mod 1000 div 10"
    using c0 by (simp add: read_nat_pad read_nat_digits)
  have ls: "length (padStart 2 CHR ''0'' (digits ?S)) = 2"
    by (rule length_pad2[OF length_digits_lt100[OF sb]])
  have lc: "length (padStart 2 CHR ''0'' (digits ?C)) = 2"
    by (rule length_pad2[OF length_digits_lt100[OF cb]])
  have lm: "2 \<le> length (padStart 2 CHR ''0'' (digits ?M))" by (rule length_pad2_ge)
  have lm2: "x div 1000 div 60 < 100 \<longrightarrow> length (padStart 2 CHR ''0'' (digits ?M)) = 2"
  proof
    assume "x div 1000 div 60 < 100"
    then have "?M < 100" by linarith
    then show "length (padStart 2 CHR ''0'' (digits ?M)) = 2"
      by (rule length_pad2[OF length_digits_lt100])
  qed
  have lm3: "100 \<le> x div 1000 div 60 \<longrightarrow> 3 \<le> length (padStart 2 CHR ''0'' (digits ?M))"
  proof
    assume "100 \<le> x div 1000 div 60"
    then have "100 \<le> ?M" by linarith
    then have "3 \<le> length (digits ?M)" by (rule length_digits_wide)
    then show "3 \<le> length (padStart 2 CHR ''0'' (digits ?M))" by (simp add: padStart_def)
  qed
  show "\<exists>m s c. formatTime x = m @ '':'' @ s @ ''.'' @ c
        \<and> m = padStart 2 CHR ''0'' (toString (x div 1000 div 60))
        \<and> s = padStart 2 CHR ''0'' (toString (x div 1000 mod 60))
        \<and> c = padStart 2 CHR ''0'' (toString (x mod 1000 div 10))
        \<and> (\<forall>ch \<in> set (m @ s @ c). is_digit ch)
        \<and> int (read_nat m) = x div 1000 div 60
        \<and> int (read_nat s) = x div 1000 mod 60
        \<and> int (read_nat c) = x mod 1000 div 10
        \<and> length s = 2 \<and> length c = 2 \<and> 2 \<le> length m
        \<and> (x div 1000 div 60 < 100 \<longrightarrow> length m = 2)
        \<and> (100 \<le> x div 1000 div 60 \<longrightarrow> 3 \<le> length m)"
    unfolding tm ts tc
    using format_fields [OF x safe] dig rm rs rc ls lc lm lm2 lm3 by blast
next
  show "formatTime 0 = ''00:00.00''"
    using format_fields [of 0] by (simp add: eval_digits padStart_def)
next
  show "formatTime 61234 = ''01:01.23''"
    using format_fields [of 61234] by (simp add: eval_digits padStart_def)
qed

theorem formatTime_fields_witness:
  "(0::int) \<le> 6000000 \<and> (6000000::int) < 2 ^ 53 \<and> formatTime 6000000 = ''100:00.00''
   \<and> (0::int) \<le> 5999990 \<and> (5999990::int) < 2 ^ 53 \<and> formatTime 5999990 = ''99:59.99''"
  using formatTime_fields [of 6000000] formatTime_fields [of 5999990]
  by (simp add: eval_digits padStart_def)

text \<open>
  The claim as stated fails beyond \<open>2 ^ 53\<close>, where the divisions of the code are
  rounded: for \<open>2 ^ 60\<close> milliseconds the code shows 07 seconds where
  \<open>x div 1000 mod 60\<close> is 6, and for \<open>2 ^ 80\<close> it shows 20148763660243820000 minutes and
  52 seconds where the quotients are 20148763660243819578 and 26.
\<close>

theorem formatTime_rounds:
  "(0::int) \<le> 2 ^ 60
   \<and> formatTime (2 ^ 60) = ''19215358410114:07.97''
   \<and> padStart 2 CHR ''0'' (toString (2 ^ 60 div 1000 div 60)) @ '':'' @
       padStart 2 CHR ''0'' (toString (2 ^ 60 div 1000 mod 60)) @ ''.'' @
       padStart 2 CHR ''0'' (toString (2 ^ 60 mod 1000 div 10)) = ''19215358410114:06.97''
   \<and> (0::int) \<le> 2 ^ 80
   \<and> formatTime (2 ^ 80) = ''20148763660243820000:52.17''
   \<and> padStart 2 CHR ''0'' (toString (2 ^ 80 div 1000 div 60)) @ '':'' @
       padStart 2 CHR ''0'' (toString (2 ^ 80 div 1000 mod 60)) @ ''.'' @
       padStart 2 CHR ''0'' (toString (2 ^ 80 mod 1000 div 10)) = ''20148763660243819578:26.17''
   \<and> formatTime (2 ^ 60) \<noteq>
       padStart 2 CHR ''0'' (toString (2 ^ 60 div 1000 div 60)) @ '':'' @
       padStart 2 CHR ''0'' (toString (2 ^ 60 div 1000 mod 60)) @ ''.'' @
       padStart 2 CHR ''0'' (toString (2 ^ 60 mod 1000 div 10))
   \<and> formatTime (2 ^ 80) \<noteq>
       padStart 2 CHR ''0'' (toString (2 ^ 80 div 1000 div 60)) @ '':'' @
       padStart 2 CHR ''0'' (toString (2 ^ 80 div 1000 mod 60)) @ ''.'' @
       padStart 2 CHR ''0'' (toString (2 ^ 80 mod 1000 div 10))"
proof -
  note lens = bitlen_range [of 9 1000] bitlen_range [of 5 60] bitlen_range [of 124]
    bitlen_range [of 144] bitlen_range [of 134]
  have d60: "Math_floor_div 1152921504606846976 1000 = 1152921504606847"
    by (simp add: js_divide_def Math_floor_div_def Let_def lens)
  have m60: "Math_floor_div 1152921504606847 60 = 19215358410114"
    using Math_floor_div_small [of 1152921504606847 60] by simp
  have c60: "Math_floor_div 976 10 = 97"
    using Math_floor_div_small [of 976 10] by simp
  have n1: "Number_toString 19215358410114 = ''19215358410114''"
    using Number_toString_small [of 19215358410114] by (simp add: eval_digits)
  have n2: "Number_toString 7 = ''7''"
    using Number_toString_small [of 7] by (simp add: eval_digits)
  have n3: "Number_toString 97 = ''97''"
    using Number_toString_small [of 97] by (simp add: eval_digits)
  have code60: "formatTime (2 ^ 60) = ''19215358410114:07.97''"
    by (simp add: formatTime_def Let_def d60 m60 c60 js_rem_def n1 n2 n3 padStart_def)
  have claim60: "padStart 2 CHR ''0'' (toString (2 ^ 60 div 1000 div 60)) @ '':'' @
       padStart 2 CHR ''0'' (toString (2 ^ 60 div 1000 mod 60)) @ ''.'' @
       padStart 2 CHR ''0'' (toString (2 ^ 60 mod 1000 div 10)) = ''19215358410114:06.97''"
    by (simp add: eval_digits padStart_def)
  have d80: "Math_floor_div 1208925819614629174706176 1000 = 1208925819614629199872"
    by (simp add: js_divide_def Math_floor_div_def Let_def lens)
  have m80: "Math_floor_div 1208925819614629199872 60 = 20148763660243820544"
    by (simp add: js_divide_def Math_floor_div_def Let_def lens)
  have c80: "Math_floor_div 176 10 = 17"
    using Math_floor_div_small [of 176 10] by simp
  have n4: "Number_toString 52 = ''52''"
    using Number_toString_small [of 52] by (simp add: eval_digits)
  have n5: "Number_toString 17 = ''17''"
    using Number_toString_small [of 17] by (simp add: eval_digits)
  have code80: "formatTime (2 ^ 80) = ''20148763660243820000:52.17''"
    by (simp add: formatTime_def Let_def d80 m80 c80 js_rem_def print_minutes n4 n5 padStart_def)
  have claim80: "padStart 2 CHR ''0'' (toString (2 ^ 80 div 1000 div 60)) @ '':'' @
       padStart 2 CHR ''0'' (toString (2 ^ 80 div 1000 mod 60)) @ ''.'' @
       padStart 2 CHR ''0'' (toString (2 ^ 80 mod 1000 div 10)) = ''20148763660243819578:26.17''"
    by (simp add: eval_digits padStart_def)
  show ?thesis unfolding code60 claim60 code80 claim80 by simp
qed

lemma Math_min_Min:
  assumes "xs \<noteq> []"
  shows "Math_min xs = Num (Min (set xs))"
proof (cases xs)
  case Nil
  then show ?thesis using assms by simp
next
  case (Cons a list)
  have "fold min list a = Min (set (a # list))" by (rule Min.set_eq_fold [symmetric])
  then show ?thesis using Cons by simp
qed

lemma Math_max_Max:
  assumes "xs \<noteq> []"
  shows "Math_max xs = Num (Max (set xs))"
proof (cases xs)
  case Nil
  then show ?thesis using assms by simp
next
  case (Cons a list)
  have "fold max list a = Max (set (a # list))" by (rule Max.set_eq_fold [symmetric])
  then show ?thesis using Cons by simp
qed

lemma getFastest_Min: "laps \<noteq> [] \<Longrightarrow> getFastest laps = Some (Num (Min (lapTime ` set laps)))"
  by (simp add: getFastest_def Math_min_Min)

lemma getSlowest_Max: "laps \<noteq> [] \<Longrightarrow> getSlowest laps = Some (Num (Max (lapTime ` set laps)))"
  by (simp add: getSlowest_def Math_max_Max)

text \<open>
  C6. \<open>getFastest\<close> is the least and \<open>getSlowest\<close> the greatest \<open>lapTime\<close> of a lap
  list, and each is \<open>null\<close> exactly for the empty list. The badges go by value: a lap of
  the list carries the fastest badge exactly when its split is the least one, and the
  slowest badge exactly when its split is the greatest one and the list has more than one
  lap. So a single lap is marked fastest and not slowest, and for the splits 500, 300, 300,
  800 both laps of 300 are marked fastest and only the lap of 800 is marked slowest.
\<close>

theorem fastest_slowest:
  "(getFastest laps = None \<longleftrightarrow> laps = [])
   \<and> (getSlowest laps = None \<longleftrightarrow> laps = [])
   \<and> (laps \<noteq> [] \<longrightarrow>
        getFastest laps = Some (Num (Min (lapTime ` set laps)))
        \<and> getSlowest laps = Some (Num (Max (lapTime ` set laps))))
   \<and> (\<forall>lap \<in> set laps. fastest_badge laps lap \<longleftrightarrow> lapTime lap = Min (lapTime ` set laps))
   \<and> (\<forall>lap \<in> set laps. slowest_badge laps lap \<longleftrightarrow>
          lapTime lap = Max (lapTime ` set laps) \<and> 1 < length laps)
   \<and> fastest_badge [only] only \<and> \<not> slowest_badge [only] only
   \<and> map (fastest_badge
          [\<lparr>id_lap = 4, time_lap = 1900, lapTime = 800\<rparr>,
           \<lparr>id_lap = 3, time_lap = 1100, lapTime = 300\<rparr>,
           \<lparr>id_lap = 2, time_lap = 800, lapTime = 300\<rparr>,
           \<lparr>id_lap = 1, time_lap = 500, lapTime = 500\<rparr>])
          [\<lparr>id_lap = 4, time_lap = 1900, lapTime = 800\<rparr>,
           \<lparr>id_lap = 3, time_lap = 1100, lapTime = 300\<rparr>,
           \<lparr>id_lap = 2, time_lap = 800, lapTime = 300\<rparr>,
           \<lparr>id_lap = 1, time_lap = 500, lapTime = 500\<rparr>] = [False, True, True, False]
   \<and> map (slowest_badge
          [\<lparr>id_lap = 4, time_lap = 1900, lapTime = 800\<rparr>,
           \<lparr>id_lap = 3, time_lap = 1100, lapTime = 300\<rparr>,
           \<lparr>id_lap = 2, time_lap = 800, lapTime = 300\<rparr>,
           \<lparr>id_lap = 1, time_lap = 500, lapTime = 500\<rparr>])
          [\<lparr>id_lap = 4, time_lap = 1900, lapTime = 800\<rparr>,
           \<lparr>id_lap = 3, time_lap = 1100, lapTime = 300\<rparr>,
           \<lparr>id_lap = 2, time_lap = 800, lapTime = 300\<rparr>,
           \<lparr>id_lap = 1, time_lap = 500, lapTime = 500\<rparr>] = [True, False, False, False]"
proof (intro conjI)
  show "getFastest laps = None \<longleftrightarrow> laps = []" by (simp add: getFastest_def)
  show "getSlowest laps = None \<longleftrightarrow> laps = []" by (simp add: getSlowest_def)
  show "laps \<noteq> [] \<longrightarrow>
        getFastest laps = Some (Num (Min (lapTime ` set laps)))
        \<and> getSlowest laps = Some (Num (Max (lapTime ` set laps)))"
    by (simp add: getFastest_Min getSlowest_Max)
  show "\<forall>lap \<in> set laps. fastest_badge laps lap \<longleftrightarrow> lapTime lap = Min (lapTime ` set laps)"
  proof
    fix lap assume "lap \<in> set laps"
    then have "laps \<noteq> []" by auto
    then show "fastest_badge laps lap \<longleftrightarrow> lapTime lap = Min (lapTime ` set laps)"
      by (simp add: fastest_badge_def getFastest_Min)
  qed
  show "\<forall>lap \<in> set laps. slowest_badge laps lap \<longleftrightarrow>
          lapTime lap = Max (lapTime ` set laps) \<and> 1 < length laps"
  proof
    fix lap assume "lap \<in> set laps"
    then have "laps \<noteq> []" by auto
    then show "slowest_badge laps lap \<longleftrightarrow>
          lapTime lap = Max (lapTime ` set laps) \<and> 1 < length laps"
      by (simp add: slowest_badge_def getSlowest_Max)
  qed
  show "fastest_badge [only] only" by (simp add: fastest_badge_def getFastest_def)
  show "\<not> slowest_badge [only] only" by (simp add: slowest_badge_def)
  show "map (fastest_badge
          [\<lparr>id_lap = 4, time_lap = 1900, lapTime = 800\<rparr>,
           \<lparr>id_lap = 3, time_lap = 1100, lapTime = 300\<rparr>,
           \<lparr>id_lap = 2, time_lap = 800, lapTime = 300\<rparr>,
           \<lparr>id_lap = 1, time_lap = 500, lapTime = 500\<rparr>])
          [\<lparr>id_lap = 4, time_lap = 1900, lapTime = 800\<rparr>,
           \<lparr>id_lap = 3, time_lap = 1100, lapTime = 300\<rparr>,
           \<lparr>id_lap = 2, time_lap = 800, lapTime = 300\<rparr>,
           \<lparr>id_lap = 1, time_lap = 500, lapTime = 500\<rparr>] = [False, True, True, False]"
    by (simp add: fastest_badge_def getFastest_def)
  show "map (slowest_badge
          [\<lparr>id_lap = 4, time_lap = 1900, lapTime = 800\<rparr>,
           \<lparr>id_lap = 3, time_lap = 1100, lapTime = 300\<rparr>,
           \<lparr>id_lap = 2, time_lap = 800, lapTime = 300\<rparr>,
           \<lparr>id_lap = 1, time_lap = 500, lapTime = 500\<rparr>])
          [\<lparr>id_lap = 4, time_lap = 1900, lapTime = 800\<rparr>,
           \<lparr>id_lap = 3, time_lap = 1100, lapTime = 300\<rparr>,
           \<lparr>id_lap = 2, time_lap = 800, lapTime = 300\<rparr>,
           \<lparr>id_lap = 1, time_lap = 500, lapTime = 500\<rparr>] = [True, False, False, False]"
    by (simp add: slowest_badge_def getSlowest_def)
qed

theorem fastest_slowest_witness:
  "[\<lparr>id_lap = 2, time_lap = 700, lapTime = 300\<rparr>,
    \<lparr>id_lap = 1, time_lap = 400, lapTime = 400\<rparr>] \<noteq> []
   \<and> \<lparr>id_lap = 2, time_lap = 700, lapTime = 300\<rparr>
        \<in> set [\<lparr>id_lap = 2, time_lap = 700, lapTime = 300\<rparr>,
                \<lparr>id_lap = 1, time_lap = 400, lapTime = 400\<rparr>]
   \<and> getFastest [\<lparr>id_lap = 2, time_lap = 700, lapTime = 300\<rparr>,
                  \<lparr>id_lap = 1, time_lap = 400, lapTime = 400\<rparr>] = Some (Num 300)
   \<and> getSlowest [\<lparr>id_lap = 2, time_lap = 700, lapTime = 300\<rparr>,
                  \<lparr>id_lap = 1, time_lap = 400, lapTime = 400\<rparr>] = Some (Num 400)
   \<and> fastest_badge [\<lparr>id_lap = 2, time_lap = 700, lapTime = 300\<rparr>,
                     \<lparr>id_lap = 1, time_lap = 400, lapTime = 400\<rparr>]
         \<lparr>id_lap = 2, time_lap = 700, lapTime = 300\<rparr>
   \<and> \<not> slowest_badge [\<lparr>id_lap = 2, time_lap = 700, lapTime = 300\<rparr>,
                     \<lparr>id_lap = 1, time_lap = 400, lapTime = 400\<rparr>]
         \<lparr>id_lap = 2, time_lap = 700, lapTime = 300\<rparr>"
  using fastest_slowest [of "[\<lparr>id_lap = 2, time_lap = 700, lapTime = 300\<rparr>,
                  \<lparr>id_lap = 1, time_lap = 400, lapTime = 400\<rparr>]"]
  by simp

lemma timer_inv_initial: "timer_inv (initial ss store)"
  by (simp add: timer_inv_def initial_def)

lemma save_effect_timer [simp]:
  "time (save_effect s) = time s" "isRunning (save_effect s) = isRunning s"
  "lapTimes (save_effect s) = lapTimes s" "lastLapTime (save_effect s) = lastLapTime s"
  "sessions (save_effect s) = sessions s"
  by (simp_all add: save_effect_def)

lemma handleReset_timer [simp]:
  "time (handleReset now stamp s) = 0" "isRunning (handleReset now stamp s) = False"
  "lapTimes (handleReset now stamp s) = []" "lastLapTime (handleReset now stamp s) = 0"
  by (simp_all add: handleReset_def)

lemma timer_inv_step: "timer_inv s \<Longrightarrow> timer_inv (step e s)"
  by (cases e)
     (auto simp add: timer_inv_def handleStartStop_def tick_def handleLap_def Let_def
        deleteSession_def clearAllHistory_def)

lemma timer_inv_run: "timer_inv s \<Longrightarrow> timer_inv (run evs s)"
  by (induction evs arbitrary: s) (simp_all add: timer_inv_step)

lemma run_append: "run (es @ fs) s = run fs (run es s)"
  by (induction es arbitrary: s) simp_all

lemma laps_ok_sum: "laps_ok ls \<Longrightarrow> sum_list (map lapTime ls) = last_mark ls"
  by (induction ls) simp_all

lemma laps_ok_nonneg: "laps_ok ls \<Longrightarrow> l \<in> set ls \<Longrightarrow> 0 \<le> lapTime l"
  by (induction ls) auto

lemma laps_ok_ids: "laps_ok ls \<Longrightarrow> map id_lap ls = rev (map int [1..<Suc (length ls)])"
  by (induction ls) simp_all

lemma laps_ok_bound: "laps_ok ls \<Longrightarrow> l \<in> set ls \<Longrightarrow> time_lap l \<le> last_mark ls"
  by (induction ls) auto

lemma laps_ok_sorted: "laps_ok ls \<Longrightarrow> sorted (rev (map time_lap ls))"
proof (induction ls)
  case Nil
  then show ?case by simp
next
  case (Cons l ls)
  then have "\<forall>x \<in> set ls. time_lap x \<le> time_lap l"
    using laps_ok_bound [of ls] by fastforce
  with Cons show ?case by (simp add: sorted_append)
qed

lemma laps_ok_nth:
  "laps_ok ls \<Longrightarrow> i < length ls \<Longrightarrow>
     lapTime (ls ! i) = time_lap (ls ! i) - (if Suc i < length ls then time_lap (ls ! Suc i) else 0)"
proof (induction ls arbitrary: i)
  case Nil
  then show ?case by simp
next
  case (Cons l ls)
  show ?case
  proof (cases i)
    case 0
    with Cons.prems show ?thesis by (cases ls) simp_all
  next
    case (Suc j)
    with Cons show ?thesis by simp
  qed
qed

text \<open>
  C4. Recording a lap in a running state, reached from a freshly mounted component by
  starts and stops, ticks and laps (resets, deletions and clearing the history may occur
  as well), makes the splits of all laps add up to the elapsed time of that moment, which
  is also the \<open>time\<close> field of the new lap; this holds for the first lap as for every
  later one. In every reached state the splits add up to \<open>lastLapTime\<close>, and with at
  least one lap to the \<open>time\<close> field of the most recent lap, the first of the list. Each
  split is the cumulative time of its lap minus that of the lap recorded before it (the
  next one in the list), or minus 0 for the first lap recorded.
\<close>

theorem splits_partition_elapsed:
  "(isRunning (run evs (initial ss store)) \<longrightarrow>
      lapTimes (run (evs @ [Lap]) (initial ss store)) \<noteq> []
      \<and> time_lap (hd (lapTimes (run (evs @ [Lap]) (initial ss store))))
          = time (run evs (initial ss store))
      \<and> time (run (evs @ [Lap]) (initial ss store)) = time (run evs (initial ss store))
      \<and> sum_list (map lapTime (lapTimes (run (evs @ [Lap]) (initial ss store))))
          = time (run evs (initial ss store)))
   \<and> sum_list (map lapTime (lapTimes (run evs (initial ss store))))
       = lastLapTime (run evs (initial ss store))
   \<and> (lapTimes (run evs (initial ss store)) \<noteq> [] \<longrightarrow>
        sum_list (map lapTime (lapTimes (run evs (initial ss store))))
          = time_lap (hd (lapTimes (run evs (initial ss store)))))
   \<and> (\<forall>i < length (lapTimes (run evs (initial ss store))).
        lapTime (lapTimes (run evs (initial ss store)) ! i)
          = time_lap (lapTimes (run evs (initial ss store)) ! i)
            - (if Suc i < length (lapTimes (run evs (initial ss store)))
               then time_lap (lapTimes (run evs (initial ss store)) ! Suc i) else 0))"
proof -
  let ?s = "run evs (initial ss store)"
  have inv: "timer_inv ?s" by (rule timer_inv_run [OF timer_inv_initial])
  then have ok: "laps_ok (lapTimes ?s)" and last: "lastLapTime ?s = last_mark (lapTimes ?s)"
    by (simp_all add: timer_inv_def)
  have mark: "lapTimes ?s \<noteq> [] \<longrightarrow> last_mark (lapTimes ?s) = time_lap (hd (lapTimes ?s))"
    by (cases "lapTimes ?s") simp_all
  have inv2: "timer_inv (step Lap ?s)" by (rule timer_inv_step [OF inv])
  have lap: "isRunning ?s \<longrightarrow>
      lapTimes (run (evs @ [Lap]) (initial ss store)) \<noteq> []
      \<and> time_lap (hd (lapTimes (run (evs @ [Lap]) (initial ss store)))) = time ?s
      \<and> time (run (evs @ [Lap]) (initial ss store)) = time ?s
      \<and> sum_list (map lapTime (lapTimes (run (evs @ [Lap]) (initial ss store)))) = time ?s"
  proof
    assume r: "isRunning ?s"
    have "sum_list (map lapTime (lapTimes (step Lap ?s))) = last_mark (lapTimes (step Lap ?s))"
      using inv2 by (simp add: timer_inv_def laps_ok_sum)
    also have "\<dots> = time ?s" using r by (simp add: handleLap_def Let_def)
    finally have total: "sum_list (map lapTime (lapTimes (step Lap ?s))) = time ?s" .
    have new: "lapTimes (step Lap ?s) \<noteq> [] \<and> time_lap (hd (lapTimes (step Lap ?s))) = time ?s
        \<and> time (step Lap ?s) = time ?s"
      using r by (simp add: handleLap_def Let_def)
    show "lapTimes (run (evs @ [Lap]) (initial ss store)) \<noteq> []
      \<and> time_lap (hd (lapTimes (run (evs @ [Lap]) (initial ss store)))) = time ?s
      \<and> time (run (evs @ [Lap]) (initial ss store)) = time ?s
      \<and> sum_list (map lapTime (lapTimes (run (evs @ [Lap]) (initial ss store)))) = time ?s"
      using total new by (simp add: run_append)
  qed
  show ?thesis
    using laps_ok_sum [OF ok] laps_ok_nth [OF ok] mark last lap by simp
qed

theorem splits_partition_elapsed_witness:
  "isRunning (run [StartStop, Tick, Tick] (initial [] Map.empty))
   \<and> lapTimes (run [StartStop, Tick, Tick] (initial [] Map.empty)) = []
   \<and> time (run [StartStop, Tick, Tick] (initial [] Map.empty)) = 20
   \<and> lapTimes (run ([StartStop, Tick, Tick] @ [Lap]) (initial [] Map.empty))
       = [\<lparr>id_lap = 1, time_lap = 20, lapTime = 20\<rparr>]
   \<and> sum_list (map lapTime
         (lapTimes (run ([StartStop, Tick, Tick] @ [Lap]) (initial [] Map.empty)))) = 20
   \<and> lapTimes (run [StartStop, Tick, Tick, Lap, Tick, Lap] (initial [] Map.empty)) \<noteq> []
   \<and> lapTimes (run [StartStop, Tick, Tick, Lap, Tick, Lap] (initial [] Map.empty))
       = [\<lparr>id_lap = 2, time_lap = 30, lapTime = 10\<rparr>, \<lparr>id_lap = 1, time_lap = 20, lapTime = 20\<rparr>]
   \<and> sum_list (map lapTime
         (lapTimes (run [StartStop, Tick, Tick, Lap, Tick, Lap] (initial [] Map.empty)))) = 30
   \<and> time (run [StartStop, Tick, Tick, Lap, Tick, Lap] (initial [] Map.empty)) = 30"
  using splits_partition_elapsed [of "[StartStop, Tick, Tick]" "[]" Map.empty]
    splits_partition_elapsed [of "[StartStop, Tick, Tick, Lap, Tick, Lap]" "[]" Map.empty]
  by (simp add: initial_def handleStartStop_def tick_def handleLap_def Let_def)

text \<open>
  C10. Every operation of the timer keeps \<open>0 \<le> lastLapTime \<le> time\<close>, in any state
  where it holds. So in every state reached from a freshly mounted component the split
  that a lap would record, \<open>time - lastLapTime\<close>, is not negative, no recorded split is
  negative, the lap numbers of the list (most recent first) go down from its length to 1,
  and the cumulative times do not increase along the list.
\<close>

theorem lastLapTime_bounds:
  "(0 \<le> lastLapTime s \<and> lastLapTime s \<le> time s \<longrightarrow>
      0 \<le> lastLapTime (step e s) \<and> lastLapTime (step e s) \<le> time (step e s))
   \<and> 0 \<le> lastLapTime (run evs (initial ss store))
   \<and> lastLapTime (run evs (initial ss store)) \<le> time (run evs (initial ss store))
   \<and> 0 \<le> time (run evs (initial ss store)) - lastLapTime (run evs (initial ss store))
   \<and> (\<forall>l \<in> set (lapTimes (run evs (initial ss store))). 0 \<le> lapTime l)
   \<and> map id_lap (lapTimes (run evs (initial ss store)))
       = rev (map int [1..<Suc (length (lapTimes (run evs (initial ss store))))])
   \<and> sorted (rev (map time_lap (lapTimes (run evs (initial ss store)))))"
proof -
  let ?r = "run evs (initial ss store)"
  have inv: "timer_inv ?r" by (rule timer_inv_run [OF timer_inv_initial])
  then have ok: "laps_ok (lapTimes ?r)" by (simp add: timer_inv_def)
  have one: "0 \<le> lastLapTime s \<and> lastLapTime s \<le> time s \<longrightarrow>
      0 \<le> lastLapTime (step e s) \<and> lastLapTime (step e s) \<le> time (step e s)"
    by (cases e)
       (auto simp add: handleStartStop_def tick_def handleLap_def Let_def
          deleteSession_def clearAllHistory_def)
  have nonneg: "\<forall>l \<in> set (lapTimes ?r). 0 \<le> lapTime l"
    using laps_ok_nonneg [OF ok] by blast
  show ?thesis
    using one inv nonneg laps_ok_ids [OF ok] laps_ok_sorted [OF ok]
    by (simp add: timer_inv_def)
qed

theorem lastLapTime_bounds_witness:
  "0 \<le> lastLapTime \<lparr>time = 30, isRunning = True, lapTimes = [], lastLapTime = 20,
         sessions = [], localStorage = Map.empty\<rparr>
   \<and> lastLapTime \<lparr>time = 30, isRunning = True, lapTimes = [], lastLapTime = 20,
         sessions = [], localStorage = Map.empty\<rparr>
       \<le> time \<lparr>time = 30, isRunning = True, lapTimes = [], lastLapTime = 20,
         sessions = [], localStorage = Map.empty\<rparr>
   \<and> lastLapTime (step Lap \<lparr>time = 30, isRunning = True, lapTimes = [], lastLapTime = 20,
         sessions = [], localStorage = Map.empty\<rparr>) = 30
   \<and> time (step Lap \<lparr>time = 30, isRunning = True, lapTimes = [], lastLapTime = 20,
         sessions = [], localStorage = Map.empty\<rparr>) = 30
   \<and> \<lparr>id_lap = 1, time_lap = 20, lapTime = 20\<rparr>
       \<in> set (lapTimes (run [StartStop, Tick, Tick, Lap, Tick, Lap] (initial [] Map.empty)))
   \<and> map id_lap (lapTimes (run [StartStop, Tick, Tick, Lap, Tick, Lap] (initial [] Map.empty)))
       = [2, 1]
   \<and> map time_lap (lapTimes (run [StartStop, Tick, Tick, Lap, Tick, Lap] (initial [] Map.empty)))
       = [30, 20]"
  using lastLapTime_bounds [of "\<lparr>time = 30, isRunning = True, lapTimes = [], lastLapTime = 20,
         sessions = [], localStorage = Map.empty\<rparr>" Lap
         "[StartStop, Tick, Tick, Lap, Tick, Lap]" "[]" Map.empty]
  by (simp add: initial_def handleStartStop_def tick_def handleLap_def Let_def)

lemma digits_nonempty: "digits n \<noteq> []"
  by (cases "n < 10") (simp_all add: digits_small digits_step)

lemma digits_inj: "digits a = digits b \<Longrightarrow> a = b"
proof -
  assume "digits a = digits b"
  then have "read_nat (digits a) = read_nat (digits b)" by (rule arg_cong)
  then show "a = b" by (simp only: read_nat_digits)
qed

lemma minus_not_digit: "\<not> is_digit CHR ''-''"
  by (simp add: is_digit_def)

lemma digits_not_minus: "CHR ''-'' # t \<noteq> digits n"
proof
  assume "CHR ''-'' # t = digits n"
  then have "CHR ''-'' \<in> set (digits n)" by (metis list.set_intros(1))
  then show False using digits_all_digit minus_not_digit by blast
qed

lemma toString_inj: "toString a = toString b \<Longrightarrow> a = b"
proof -
  assume eq: "toString a = toString b"
  show ?thesis
  proof (cases "a < 0")
    case an: True
    show ?thesis
    proof (cases "b < 0")
      case True
      with an eq have "digits (nat (- a)) = digits (nat (- b))" by (simp add: toString_def)
      then have "nat (- a) = nat (- b)" by (rule digits_inj)
      with an True show ?thesis by simp
    next
      case False
      with an eq show ?thesis using digits_not_minus by (simp add: toString_def)
    qed
  next
    case ap: False
    show ?thesis
    proof (cases "b < 0")
      case True
      with ap eq show ?thesis using digits_not_minus [of "digits (nat (- b))" "nat a"]
        by (simp add: toString_def)
    next
      case False
      with ap eq have "digits (nat a) = digits (nat b)" by (simp add: toString_def)
      then have "nat a = nat b" by (rule digits_inj)
      with ap False show ?thesis by simp
    qed
  qed
qed

lemma sessions_step_ids:
  "id_session ` set (sessions (step e s))
     \<subseteq> id_session ` set (sessions s) \<union> toString ` set (reset_clocks [e])"
  by (cases e)
     (auto simp add: handleStartStop_def tick_def handleLap_def Let_def handleReset_def
        saveSession_def deleteSession_def clearAllHistory_def save_effect_def)

lemma sessions_step_distinct:
  "distinct (map id_session (sessions s)) \<Longrightarrow>
   \<forall>n \<in> set (reset_clocks [e]). toString n \<notin> id_session ` set (sessions s) \<Longrightarrow>
   distinct (map id_session (sessions (step e s)))"
  by (cases e)
     (auto simp add: handleStartStop_def tick_def handleLap_def Let_def handleReset_def
        saveSession_def deleteSession_def clearAllHistory_def save_effect_def distinct_map_filter)

text \<open>
  C8. The id of a session is the decimal text of the clock reading of its reset, and
  nothing in the program compares ids. Two resets that read the same clock value
  therefore store two sessions with the same id. What holds is this: from a history whose
  ids are pairwise distinct, every sequence of operations whose resets read pairwise
  distinct clock values, none of which is the id of a session already in the history,
  leads to a history whose ids are pairwise distinct.
\<close>

theorem session_ids_distinct:
  "distinct (map id_session (sessions s)) \<Longrightarrow>
   distinct (reset_clocks evs) \<Longrightarrow>
   \<forall>n \<in> set (reset_clocks evs). toString n \<notin> id_session ` set (sessions s) \<Longrightarrow>
   distinct (map id_session (sessions (run evs s)))"
proof (induction evs arbitrary: s)
  case Nil
  then show ?case by simp
next
  case (Cons e evs)
  have split: "reset_clocks (e # evs) = reset_clocks [e] @ reset_clocks evs"
    by (cases e) simp_all
  have d1: "distinct (map id_session (sessions (step e s)))"
    using Cons.prems(1,3) by (intro sessions_step_distinct) (simp_all add: split)
  have d2: "distinct (reset_clocks evs)"
    using Cons.prems(2) by (simp add: split)
  have d3: "\<forall>n \<in> set (reset_clocks evs). toString n \<notin> id_session ` set (sessions (step e s))"
  proof
    fix n assume n: "n \<in> set (reset_clocks evs)"
    show "toString n \<notin> id_session ` set (sessions (step e s))"
    proof
      assume "toString n \<in> id_session ` set (sessions (step e s))"
      then have "toString n \<in> id_session ` set (sessions s) \<union> toString ` set (reset_clocks [e])"
        using sessions_step_ids by blast
      then show False
      proof
        assume "toString n \<in> id_session ` set (sessions s)"
        then show False using Cons.prems(3) n by (simp add: split)
      next
        assume "toString n \<in> toString ` set (reset_clocks [e])"
        then obtain m where m: "m \<in> set (reset_clocks [e])" and "toString n = toString m" by blast
        then have "n = m" by (intro toString_inj)
        with m n Cons.prems(2) show False by (auto simp add: split)
      qed
    qed
  qed
  show ?case using Cons.IH [OF d1 d2 d3] by simp
qed

theorem session_ids_distinct_witness:
  "distinct (map id_session (sessions (initial [] Map.empty)))
   \<and> distinct (reset_clocks [StartStop, Tick, Reset 1000 ''2024-01-01T00:00:01.000Z'',
                               StartStop, Tick, Reset 1010 ''2024-01-01T00:00:01.010Z''])
   \<and> id_session ` set (sessions (initial [] Map.empty)) = {}
   \<and> map id_session (sessions
         (run [StartStop, Tick, Reset 1000 ''2024-01-01T00:00:01.000Z'',
               StartStop, Tick, Reset 1010 ''2024-01-01T00:00:01.010Z'']
            (initial [] Map.empty))) = [''1010'', ''1000'']
   \<and> distinct (map id_session (sessions
         (run [StartStop, Tick, Reset 1000 ''2024-01-01T00:00:01.000Z'',
               StartStop, Tick, Reset 1010 ''2024-01-01T00:00:01.010Z'']
            (initial [] Map.empty))))"
  using session_ids_distinct [of "initial [] Map.empty"
          "[StartStop, Tick, Reset 1000 ''2024-01-01T00:00:01.000Z'',
            StartStop, Tick, Reset 1010 ''2024-01-01T00:00:01.010Z'']"]
  by (simp add: initial_def handleStartStop_def tick_def handleReset_def saveSession_def
        save_effect_def Let_def eval_digits)

text \<open>
  The claim as stated fails: a run, a reset at clock value 1000, another run and another
  reset at the same clock value leave two sessions with the id \<open>1000\<close>.
\<close>

theorem session_ids_duplicate:
  "\<not> distinct (map id_session (sessions
       (run [StartStop, Tick, Reset 1000 ''2024-01-01T00:00:01.000Z'',
             StartStop, Tick, Reset 1000 ''2024-01-01T00:00:01.000Z'']
          (initial [] Map.empty))))"
  by (simp add: initial_def handleStartStop_def tick_def handleReset_def saveSession_def
        save_effect_def Let_def)

section \<open>Reading back what was written\<close>

text \<open>
  \<open>JSON_parse\<close> accepts every text that \<open>JSON_stringify\<close> produces and returns the tree
  it was rendered from. The scanner is followed through the text piece by piece, then the
  stack machine through the tokens.
\<close>

declare tokenize.simps(2) [simp del]

lemma tokenize_Cons:
  "tokenize st (c # cs) =
     (case lex_step st c of
        None \<Rightarrow> None
      | Some (ts, st') \<Rightarrow> prepend ts (tokenize st' cs))"
  by (simp add: prepend_def tokenize.simps(2) split: option.splits prod.splits)

lemma prepend_prepend: "prepend a (prepend b x) = prepend (a @ b) x"
  by (cases x) (simp_all add: prepend_def)

lemma prepend_Nil: "prepend [] x = x"
  by (cases x) (simp_all add: prepend_def)

lemma prepend_Some: "prepend a (Some us) = Some (a @ us)"
  by (simp add: prepend_def)

lemma digit_char_nonzero: "0 < d \<Longrightarrow> d < 10 \<Longrightarrow> digit_char d \<noteq> CHR ''0''"
  by (drule digit_cases, elim disjE) (simp_all add: digit_char_def)

lemma digits_hd_nonzero: "0 < n \<Longrightarrow> hd (digits n) \<noteq> CHR ''0''"
proof (induction n rule: digits.induct)
  case (1 n)
  show ?case
  proof (cases "n < 10")
    case True
    with 1(2) show ?thesis by (simp add: digits_small digit_char_nonzero)
  next
    case False
    then have "0 < n div 10" by simp
    with 1(1) False have "hd (digits (n div 10)) \<noteq> CHR ''0''" by simp
    with False show ?thesis by (simp add: digits_step digits_nonempty)
  qed
qed

lemma lex_num_end_comma:
  "tokenize (LNum NInt acc) (CHR '','' # rest)
     = prepend [TValue (JNum acc), TComma] (tokenize LIdle rest)"
  by (simp add: tokenize_Cons lex_idle_def is_ws_def is_digit_def is_exp_def)

lemma lex_num_end_brace:
  "tokenize (LNum NInt acc) (CHR ''}'' # rest)
     = prepend [TValue (JNum acc), TRBrace] (tokenize LIdle rest)"
  by (simp add: tokenize_Cons lex_idle_def is_ws_def is_digit_def is_exp_def)

lemma lex_num_digit:
  "is_digit d \<Longrightarrow>
   tokenize (LNum NInt acc) (d # cs) = tokenize (LNum NInt (acc @ [d])) cs"
  by (simp add: tokenize_Cons prepend_Nil)

lemma lex_digits_comma:
  "\<forall>d \<in> set ds. is_digit d \<Longrightarrow>
   tokenize (LNum NInt acc) (ds @ CHR '','' # rest)
     = prepend [TValue (JNum (acc @ ds)), TComma] (tokenize LIdle rest)"
proof (induction ds arbitrary: acc)
  case Nil
  show ?case by (simp add: lex_num_end_comma)
next
  case (Cons d ds)
  have d: "is_digit d" and ds: "\<forall>d \<in> set ds. is_digit d" using Cons.prems by simp_all
  have "tokenize (LNum NInt acc) ((d # ds) @ CHR '','' # rest)
      = tokenize (LNum NInt (acc @ [d])) (ds @ CHR '','' # rest)"
    by (simp add: lex_num_digit [OF d])
  also have "\<dots> = prepend [TValue (JNum ((acc @ [d]) @ ds)), TComma] (tokenize LIdle rest)"
    by (rule Cons.IH [OF ds])
  finally show ?case by simp
qed

lemma lex_digits_brace:
  "\<forall>d \<in> set ds. is_digit d \<Longrightarrow>
   tokenize (LNum NInt acc) (ds @ CHR ''}'' # rest)
     = prepend [TValue (JNum (acc @ ds)), TRBrace] (tokenize LIdle rest)"
proof (induction ds arbitrary: acc)
  case Nil
  show ?case by (simp add: lex_num_end_brace)
next
  case (Cons d ds)
  have d: "is_digit d" and ds: "\<forall>d \<in> set ds. is_digit d" using Cons.prems by simp_all
  have "tokenize (LNum NInt acc) ((d # ds) @ CHR ''}'' # rest)
      = tokenize (LNum NInt (acc @ [d])) (ds @ CHR ''}'' # rest)"
    by (simp add: lex_num_digit [OF d])
  also have "\<dots> = prepend [TValue (JNum ((acc @ [d]) @ ds)), TRBrace] (tokenize LIdle rest)"
    by (rule Cons.IH [OF ds])
  finally show ?case by simp
qed

lemma is_digit_cases:
  "is_digit d \<Longrightarrow>
     d = CHR ''0'' \<or> d = CHR ''1'' \<or> d = CHR ''2'' \<or> d = CHR ''3'' \<or> d = CHR ''4''
     \<or> d = CHR ''5'' \<or> d = CHR ''6'' \<or> d = CHR ''7'' \<or> d = CHR ''8'' \<or> d = CHR ''9''"
  by (simp add: is_digit_def)

lemma lex_idle_digit:
  "is_digit d \<Longrightarrow> d \<noteq> CHR ''0'' \<Longrightarrow> lex_idle d = Some ([], LNum NInt [d])"
  by (drule is_digit_cases, elim disjE) (simp_all add: lex_idle_def is_ws_def is_digit_def)

lemma num_step_minus_digit:
  "is_digit d \<Longrightarrow> d \<noteq> CHR ''0'' \<Longrightarrow> num_step NMinus d = Some NInt"
  by simp

lemma digits_shape:
  "0 < n \<Longrightarrow> \<exists>d ds. digits n = d # ds \<and> is_digit d \<and> d \<noteq> CHR ''0'' \<and> (\<forall>x \<in> set ds. is_digit x)"
proof -
  assume n: "0 < n"
  obtain d ds where eq: "digits n = d # ds" using digits_nonempty [of n] by (cases "digits n") auto
  have "d \<noteq> CHR ''0''" using digits_hd_nonzero [OF n] eq by simp
  moreover have "\<forall>x \<in> set (d # ds). is_digit x" using digits_all_digit [of _ n] eq by auto
  ultimately show ?thesis using eq by auto
qed

lemma lex_nat_comma:
  "tokenize LIdle (digits n @ CHR '','' # rest)
     = prepend [TValue (JNum (digits n)), TComma] (tokenize LIdle rest)"
proof (cases "n = 0")
  case True
  then show ?thesis
    by (simp add: digits_small digit_char_def tokenize_Cons lex_idle_def is_ws_def
          is_digit_def is_exp_def prepend_Nil)
next
  case False
  then obtain d ds where eq: "digits n = d # ds" and d: "is_digit d" "d \<noteq> CHR ''0''"
    and ds: "\<forall>x \<in> set ds. is_digit x"
    using digits_shape [of n] by auto
  have "tokenize LIdle (digits n @ CHR '','' # rest)
      = tokenize (LNum NInt [d]) (ds @ CHR '','' # rest)"
    by (simp add: eq tokenize_Cons lex_idle_digit [OF d] prepend_Nil)
  also have "\<dots> = prepend [TValue (JNum ([d] @ ds)), TComma] (tokenize LIdle rest)"
    by (rule lex_digits_comma [OF ds])
  finally show ?thesis by (simp add: eq)
qed

lemma lex_nat_brace:
  "tokenize LIdle (digits n @ CHR ''}'' # rest)
     = prepend [TValue (JNum (digits n)), TRBrace] (tokenize LIdle rest)"
proof (cases "n = 0")
  case True
  then show ?thesis
    by (simp add: digits_small digit_char_def tokenize_Cons lex_idle_def is_ws_def
          is_digit_def is_exp_def prepend_Nil)
next
  case False
  then obtain d ds where eq: "digits n = d # ds" and d: "is_digit d" "d \<noteq> CHR ''0''"
    and ds: "\<forall>x \<in> set ds. is_digit x"
    using digits_shape [of n] by auto
  have "tokenize LIdle (digits n @ CHR ''}'' # rest)
      = tokenize (LNum NInt [d]) (ds @ CHR ''}'' # rest)"
    by (simp add: eq tokenize_Cons lex_idle_digit [OF d] prepend_Nil)
  also have "\<dots> = prepend [TValue (JNum ([d] @ ds)), TRBrace] (tokenize LIdle rest)"
    by (rule lex_digits_brace [OF ds])
  finally show ?thesis by (simp add: eq)
qed

lemma lex_neg_comma:
  "0 < n \<Longrightarrow>
   tokenize LIdle (CHR ''-'' # digits n @ CHR '','' # rest)
     = prepend [TValue (JNum (CHR ''-'' # digits n)), TComma] (tokenize LIdle rest)"
proof -
  assume "0 < n"
  then obtain d ds where eq: "digits n = d # ds" and d: "is_digit d" "d \<noteq> CHR ''0''"
    and ds: "\<forall>x \<in> set ds. is_digit x"
    using digits_shape [of n] by auto
  have "tokenize LIdle (CHR ''-'' # digits n @ CHR '','' # rest)
      = tokenize (LNum NInt [CHR ''-'', d]) (ds @ CHR '','' # rest)"
    using d by (simp add: eq tokenize_Cons lex_idle_def is_ws_def is_digit_def prepend_Nil)
  also have "\<dots> = prepend [TValue (JNum ([CHR ''-'', d] @ ds)), TComma] (tokenize LIdle rest)"
    by (rule lex_digits_comma [OF ds])
  finally show ?thesis by (simp add: eq)
qed

lemma lex_neg_brace:
  "0 < n \<Longrightarrow>
   tokenize LIdle (CHR ''-'' # digits n @ CHR ''}'' # rest)
     = prepend [TValue (JNum (CHR ''-'' # digits n)), TRBrace] (tokenize LIdle rest)"
proof -
  assume "0 < n"
  then obtain d ds where eq: "digits n = d # ds" and d: "is_digit d" "d \<noteq> CHR ''0''"
    and ds: "\<forall>x \<in> set ds. is_digit x"
    using digits_shape [of n] by auto
  have "tokenize LIdle (CHR ''-'' # digits n @ CHR ''}'' # rest)
      = tokenize (LNum NInt [CHR ''-'', d]) (ds @ CHR ''}'' # rest)"
    using d by (simp add: eq tokenize_Cons lex_idle_def is_ws_def is_digit_def prepend_Nil)
  also have "\<dots> = prepend [TValue (JNum ([CHR ''-'', d] @ ds)), TRBrace] (tokenize LIdle rest)"
    by (rule lex_digits_brace [OF ds])
  finally show ?thesis by (simp add: eq)
qed

lemma lex_toString_comma:
  "tokenize LIdle (toString n @ CHR '','' # rest)
     = prepend [TValue (JNum (toString n)), TComma] (tokenize LIdle rest)"
  by (cases "n < 0") (simp_all add: toString_def lex_neg_comma lex_nat_comma)

lemma lex_toString_brace:
  "tokenize LIdle (toString n @ CHR ''}'' # rest)
     = prepend [TValue (JNum (toString n)), TRBrace] (tokenize LIdle rest)"
  by (cases "n < 0") (simp_all add: toString_def lex_neg_brace lex_nat_brace)

lemma hex_cases:
  "(d::nat) < 16 \<Longrightarrow>
     d = 0 \<or> d = 1 \<or> d = 2 \<or> d = 3 \<or> d = 4 \<or> d = 5 \<or> d = 6 \<or> d = 7 \<or> d = 8 \<or> d = 9
     \<or> d = 10 \<or> d = 11 \<or> d = 12 \<or> d = 13 \<or> d = 14 \<or> d = 15"
  by arith

lemma is_hex_hex_char: "d < 16 \<Longrightarrow> is_hex (hex_char d)"
  by (drule hex_cases, elim disjE) (simp_all add: is_hex_def hex_char_def)

lemma is_hex_zero: "is_hex CHR ''0''"
  by (simp add: is_hex_def)

lemma lex_hex_escape:
  "is_hex a \<Longrightarrow> is_hex b \<Longrightarrow>
   tokenize (LStr acc) (CHR 0x5C # CHR ''u'' # CHR ''0'' # CHR ''0'' # a # b # r)
     = tokenize (LStr (acc @ [CHR 0x5C, CHR ''u'', CHR ''0'', CHR ''0'', a, b])) r"
  by (simp add: tokenize_Cons prepend_Nil is_hex_zero)

lemma lex_short_escape:
  "e \<in> set [CHR 0x22, CHR 0x5C, CHR ''/'', CHR ''b'', CHR ''f'', CHR ''n'', CHR ''r'', CHR ''t''] \<Longrightarrow>
   tokenize (LStr acc) (CHR 0x5C # e # r) = tokenize (LStr (acc @ [CHR 0x5C, e])) r"
  by (simp add: tokenize_Cons prepend_Nil)

lemma lex_plain_char:
  "c \<noteq> CHR 0x22 \<Longrightarrow> c \<noteq> CHR 0x5C \<Longrightarrow> \<not> (of_char c :: nat) < 32 \<Longrightarrow>
   tokenize (LStr acc) (c # r) = tokenize (LStr (acc @ [c])) r"
  by (simp add: tokenize_Cons prepend_Nil)

lemma lex_quote_char:
  "tokenize (LStr acc) (quote_char c @ r) = tokenize (LStr (acc @ quote_char c)) r"
proof -
  have h: "(of_char c :: nat) < 32 \<Longrightarrow>
      is_hex (hex_char ((of_char c :: nat) div 16)) \<and> is_hex (hex_char ((of_char c :: nat) mod 16))"
    by (simp add: is_hex_hex_char)
  show ?thesis
    unfolding quote_char_def
    using h by (auto simp add: lex_hex_escape lex_short_escape lex_plain_char)
qed

lemma lex_quote_body:
  "tokenize (LStr acc) (quote_body s @ CHR 0x22 # rest)
     = prepend [TString (acc @ quote_body s)] (tokenize LIdle rest)"
proof (induction s arbitrary: acc)
  case Nil
  show ?case by (simp add: quote_body_def tokenize_Cons)
next
  case (Cons c s)
  have "tokenize (LStr acc) (quote_body (c # s) @ CHR 0x22 # rest)
      = tokenize (LStr acc) (quote_char c @ (quote_body s @ CHR 0x22 # rest))"
    by (simp add: quote_body_def)
  also have "\<dots> = tokenize (LStr (acc @ quote_char c)) (quote_body s @ CHR 0x22 # rest)"
    by (rule lex_quote_char)
  also have "\<dots> = prepend [TString ((acc @ quote_char c) @ quote_body s)] (tokenize LIdle rest)"
    by (rule Cons.IH)
  finally show ?case by (simp add: quote_body_def)
qed

lemma lex_string:
  "tokenize LIdle (CHR 0x22 # quote_body s @ CHR 0x22 # rest)
     = prepend [TString (quote_body s)] (tokenize LIdle rest)"
  using lex_quote_body [of "[]" s rest]
  by (simp add: tokenize_Cons lex_idle_def is_ws_def prepend_Nil)

lemmas lex_chars = tokenize_Cons lex_idle_def is_ws_def is_digit_def prepend_Nil prepend_prepend

lemma lex_lap:
  "tokenize LIdle (render (lap_json l) @ rest) = prepend (lap_tokens l) (tokenize LIdle rest)"
  by (simp add: lap_json_def lap_tokens_def lex_chars lex_toString_comma lex_toString_brace)

lemma lex_commas:
  assumes "\<And>x rest. tokenize LIdle (f x @ rest) = prepend (g x) (tokenize LIdle rest)"
  shows "tokenize LIdle (commas (map f xs) @ rest)
     = prepend (list_tokens (map g xs)) (tokenize LIdle rest)"
proof (induction xs rule: induct_list012)
  case 1
  show ?case by (simp add: prepend_Nil)
next
  case (2 x)
  show ?case by (simp add: assms)
next
  case (3 x y zs)
  have "tokenize LIdle (commas (map f (x # y # zs)) @ rest)
      = tokenize LIdle (f x @ (CHR '','' # (commas (map f (y # zs)) @ rest)))"
    by simp
  also have "\<dots> = prepend (g x) (tokenize LIdle (CHR '','' # (commas (map f (y # zs)) @ rest)))"
    by (rule assms)
  also have "\<dots> = prepend (g x) (prepend [TComma] (tokenize LIdle (commas (map f (y # zs)) @ rest)))"
    by (simp add: lex_chars)
  also have "\<dots> = prepend (g x) (prepend [TComma] (prepend (list_tokens (map g (y # zs)))
        (tokenize LIdle rest)))"
    by (simp only: 3)
  finally show ?case by (simp add: prepend_prepend)
qed

lemma lex_laps:
  "tokenize LIdle (commas (map (render \<circ> lap_json) ls) @ rest)
     = prepend (list_tokens (map lap_tokens ls)) (tokenize LIdle rest)"
  by (rule lex_commas) (simp add: lex_lap)

lemma lex_string_body:
  "tokenize (LStr []) (quote_body s @ CHR 0x22 # rest)
     = prepend [TString (quote_body s)] (tokenize LIdle rest)"
  using lex_quote_body [of "[]" s rest] by simp

lemma lex_session:
  "tokenize LIdle (render (session_json s) @ rest)
     = prepend (session_tokens s) (tokenize LIdle rest)"
  by (simp add: session_json_def session_tokens_def lex_chars lex_toString_comma
        lex_string_body lex_laps)

lemma lex_sessions:
  "tokenize LIdle (JSON_stringify ss) = Some (sessions_tokens ss)"
proof -
  have "tokenize LIdle (commas (map (render \<circ> session_json) ss) @ '']'')
      = prepend (list_tokens (map session_tokens ss)) (tokenize LIdle '']'')"
    by (rule lex_commas) (simp add: lex_session)
  then show ?thesis
    by (simp add: JSON_stringify_def sessions_json_def sessions_tokens_def lex_chars prepend_Some)
qed

lemma parse_lap:
  "m = MValue \<or> m = MFirst \<Longrightarrow>
   parse_tokens m (FArr es # st) (lap_tokens l @ ts)
     = parse_tokens MAfter (FArr (es @ [lap_json l]) # st) ts"
  by (auto simp add: lap_tokens_def lap_json_def)

lemma parse_elements:
  assumes elem: "\<And>x m es ts. m = MValue \<or> m = MFirst \<Longrightarrow>
      parse_tokens m (FArr es # st) (g x @ ts)
        = parse_tokens MAfter (FArr (es @ [f x]) # st) ts"
  shows "m = MValue \<or> m = MFirst \<Longrightarrow>
     parse_tokens m (FArr es # st) (list_tokens (map g (x # xs)) @ TRBrack # ts)
       = parse_tokens MAfter (FArr (es @ map f (x # xs)) # st) (TRBrack # ts)"
proof (induction xs arbitrary: x m es)
  case Nil
  then show ?case by (simp add: elem)
next
  case (Cons y ys)
  have "parse_tokens m (FArr es # st) (list_tokens (map g (x # y # ys)) @ TRBrack # ts)
      = parse_tokens m (FArr es # st) (g x @ (TComma # list_tokens (map g (y # ys)) @ TRBrack # ts))"
    by simp
  also have "\<dots> = parse_tokens MAfter (FArr (es @ [f x]) # st)
        (TComma # list_tokens (map g (y # ys)) @ TRBrack # ts)"
    by (rule elem [OF Cons.prems])
  also have "\<dots> = parse_tokens MValue (FArr (es @ [f x]) # st)
        (list_tokens (map g (y # ys)) @ TRBrack # ts)"
    by simp
  also have "\<dots> = parse_tokens MAfter (FArr ((es @ [f x]) @ map f (y # ys)) # st) (TRBrack # ts)"
    by (rule Cons.IH) simp
  finally show ?case by simp
qed

lemma parse_array:
  assumes elem: "\<And>x m es ts. m = MValue \<or> m = MFirst \<Longrightarrow>
      parse_tokens m (FArr es # st) (g x @ ts)
        = parse_tokens MAfter (FArr (es @ [f x]) # st) ts"
  shows "parse_tokens MFirst (FArr [] # st) (list_tokens (map g xs) @ TRBrack # ts)
       = parse_tokens MAfter (FArr (map f xs) # st) (TRBrack # ts)"
proof (cases xs)
  case Nil
  then show ?thesis by simp
next
  case (Cons x ys)
  show ?thesis
    unfolding Cons using parse_elements [of st g f MFirst "[]" x ys ts, OF elem] by simp
qed

lemma parse_laps:
  "parse_tokens MFirst (FArr [] # st) (list_tokens (map lap_tokens ls) @ TRBrack # ts)
     = parse_tokens MAfter (FArr (map lap_json ls) # st) (TRBrack # ts)"
  by (rule parse_array) (rule parse_lap)

lemma parse_session:
  "m = MValue \<or> m = MFirst \<Longrightarrow>
   parse_tokens m (FArr es # st) (session_tokens s @ ts)
     = parse_tokens MAfter (FArr (es @ [session_json s]) # st) ts"
  by (auto simp add: session_tokens_def session_json_def parse_laps)

lemma parse_sessions: "parse_tokens MValue [] (sessions_tokens ss) = Some (sessions_json ss)"
proof -
  have "parse_tokens MFirst [FArr []] (list_tokens (map session_tokens ss) @ [TRBrack])
      = parse_tokens MAfter [FArr (map session_json ss)] [TRBrack]"
    by (rule parse_array) (rule parse_session)
  then show ?thesis by (simp add: sessions_tokens_def sessions_json_def)
qed

lemma JSON_parse_stringify: "JSON_parse (JSON_stringify ss) = Some (sessions_json ss)"
  by (simp add: JSON_parse_def lex_sessions parse_sessions)

lemma JSON_stringify_nonempty: "JSON_stringify ss \<noteq> []"
  by (simp add: JSON_stringify_def sessions_json_def)

lemma load_stringify: "load (store (STORAGE_KEY \<mapsto> JSON_stringify ss)) = sessions_json ss"
  by (simp add: load_def JSON_stringify_nonempty JSON_parse_stringify)

lemma load_save_effect: "load (localStorage (save_effect s)) = sessions_json (sessions s)"
  by (simp add: save_effect_def load_stringify)

lemma lap_json_shape: "lap_shape (lap_json l)"
  by (simp add: lap_json_def property_def)

lemma session_json_shape: "session_shape (session_json s)"
  by (simp add: session_json_def property_def list_all_iff lap_json_shape)

lemma sessions_json_shape: "session_list_shape (sessions_json ss)"
  by (simp add: sessions_json_def list_all_iff session_json_shape)

section \<open>The session store\<close>



lemmas eval_json = JSON_parse_def tokenize.simps lex_idle_def is_ws_def is_hex_def is_exp_def is_digit_def

lemma JSON_parse_empty_array: "JSON_parse ''[]'' = Some (JArr [])"
  by (simp add: eval_json)

lemma JSON_stringify_Nil: "JSON_stringify [] = ''[]''"
  by (simp add: JSON_stringify_def sessions_json_def)

text \<open>
  What the load effect yields, case by case: a missing key, an empty string and a string
  that \<open>JSON.parse\<close> rejects all leave the empty session list; every other stored string
  yields the parsed value as it is. A string that the program wrote, the serialisation of
  a session list, yields that list.
\<close>

theorem load_cases:
  "(store STORAGE_KEY = None \<longrightarrow> load store = JArr [])
   \<and> (store STORAGE_KEY = Some [] \<longrightarrow> load store = JArr [])
   \<and> (\<forall>text. store STORAGE_KEY = Some text \<and> JSON_parse text = None \<longrightarrow> load store = JArr [])
   \<and> (\<forall>text v. store STORAGE_KEY = Some text \<and> text \<noteq> [] \<and> JSON_parse text = Some v
          \<longrightarrow> load store = v)
   \<and> (load store \<noteq> JArr [] \<longrightarrow>
          (\<exists>text. store STORAGE_KEY = Some text \<and> JSON_parse text = Some (load store)))
   \<and> (\<forall>ss. store STORAGE_KEY = Some (JSON_stringify ss) \<longrightarrow>
          load store = sessions_json ss \<and> session_list_shape (load store))"
proof -
  have written: "\<forall>ss. store STORAGE_KEY = Some (JSON_stringify ss) \<longrightarrow>
          load store = sessions_json ss \<and> session_list_shape (load store)"
  proof (intro allI impI)
    fix ss assume "store STORAGE_KEY = Some (JSON_stringify ss)"
    then have "store = store (STORAGE_KEY \<mapsto> JSON_stringify ss)" by (simp add: map_upd_triv)
    then have "load store = sessions_json ss" using load_stringify [of store ss] by simp
    then show "load store = sessions_json ss \<and> session_list_shape (load store)"
      by (simp add: sessions_json_shape)
  qed
  have rest: "(store STORAGE_KEY = None \<longrightarrow> load store = JArr [])
   \<and> (store STORAGE_KEY = Some [] \<longrightarrow> load store = JArr [])
   \<and> (\<forall>text. store STORAGE_KEY = Some text \<and> JSON_parse text = None \<longrightarrow> load store = JArr [])
   \<and> (\<forall>text v. store STORAGE_KEY = Some text \<and> text \<noteq> [] \<and> JSON_parse text = Some v
          \<longrightarrow> load store = v)
   \<and> (load store \<noteq> JArr [] \<longrightarrow>
          (\<exists>text. store STORAGE_KEY = Some text \<and> JSON_parse text = Some (load store)))"
    by (auto simp add: load_def split: option.splits)
  show ?thesis using rest written by blast
qed

theorem load_cases_witness:
  "Map.empty STORAGE_KEY = None \<and> load Map.empty = JArr []
   \<and> [STORAGE_KEY \<mapsto> ''not json''] STORAGE_KEY = Some ''not json''
   \<and> JSON_parse ''not json'' = None
   \<and> load [STORAGE_KEY \<mapsto> ''not json''] = JArr []
   \<and> [STORAGE_KEY \<mapsto> ''[{\"id\":\"7\",\"date\":\"d\",\"totalTime\":10,\"lapTimes\":[]}]''] STORAGE_KEY
       = Some ''[{\"id\":\"7\",\"date\":\"d\",\"totalTime\":10,\"lapTimes\":[]}]''
   \<and> ''[{\"id\":\"7\",\"date\":\"d\",\"totalTime\":10,\"lapTimes\":[]}]'' \<noteq> []
   \<and> load [STORAGE_KEY \<mapsto> ''[{\"id\":\"7\",\"date\":\"d\",\"totalTime\":10,\"lapTimes\":[]}]'']
       = sessions_json [\<lparr>id_session = ''7'', date = ''d'', totalTime = 10, lapTimes_session = []\<rparr>]
   \<and> [STORAGE_KEY \<mapsto> JSON_stringify
           [\<lparr>id_session = ''1000'', date = ''2024-01-01T00:00:01.000Z'', totalTime = 30,
             lapTimes_session = [\<lparr>id_lap = 1, time_lap = 20, lapTime = 20\<rparr>]\<rparr>]] STORAGE_KEY
       = Some (JSON_stringify
           [\<lparr>id_session = ''1000'', date = ''2024-01-01T00:00:01.000Z'', totalTime = 30,
             lapTimes_session = [\<lparr>id_lap = 1, time_lap = 20, lapTime = 20\<rparr>]\<rparr>])
   \<and> load [STORAGE_KEY \<mapsto> JSON_stringify
           [\<lparr>id_session = ''1000'', date = ''2024-01-01T00:00:01.000Z'', totalTime = 30,
             lapTimes_session = [\<lparr>id_lap = 1, time_lap = 20, lapTime = 20\<rparr>]\<rparr>]]
       = sessions_json
           [\<lparr>id_session = ''1000'', date = ''2024-01-01T00:00:01.000Z'', totalTime = 30,
             lapTimes_session = [\<lparr>id_lap = 1, time_lap = 20, lapTime = 20\<rparr>]\<rparr>]"
proof -
  have a: "Map.empty STORAGE_KEY = None \<and> load Map.empty = JArr []"
    using load_cases [of Map.empty] by simp
  have b: "[STORAGE_KEY \<mapsto> ''not json''] STORAGE_KEY = Some ''not json''
      \<and> JSON_parse ''not json'' = None
      \<and> load [STORAGE_KEY \<mapsto> ''not json''] = JArr []"
    using load_cases [of "[STORAGE_KEY \<mapsto> ''not json'']"] by (simp add: eval_json)
  have p: "JSON_parse ''[{\"id\":\"7\",\"date\":\"d\",\"totalTime\":10,\"lapTimes\":[]}]''
      = Some (sessions_json
          [\<lparr>id_session = ''7'', date = ''d'', totalTime = 10, lapTimes_session = []\<rparr>])"
    by (simp add: eval_json sessions_json_def session_json_def quote_body_def
          quote_char_def eval_digits)
  have c: "[STORAGE_KEY \<mapsto> ''[{\"id\":\"7\",\"date\":\"d\",\"totalTime\":10,\"lapTimes\":[]}]''] STORAGE_KEY
       = Some ''[{\"id\":\"7\",\"date\":\"d\",\"totalTime\":10,\"lapTimes\":[]}]''
      \<and> ''[{\"id\":\"7\",\"date\":\"d\",\"totalTime\":10,\"lapTimes\":[]}]'' \<noteq> []
      \<and> load [STORAGE_KEY \<mapsto> ''[{\"id\":\"7\",\"date\":\"d\",\"totalTime\":10,\"lapTimes\":[]}]'']
       = sessions_json [\<lparr>id_session = ''7'', date = ''d'', totalTime = 10, lapTimes_session = []\<rparr>]"
    using p load_cases [of "[STORAGE_KEY \<mapsto> ''[{\"id\":\"7\",\"date\":\"d\",\"totalTime\":10,\"lapTimes\":[]}]'']"]
    by simp
  have d: "[STORAGE_KEY \<mapsto> JSON_stringify
           [\<lparr>id_session = ''1000'', date = ''2024-01-01T00:00:01.000Z'', totalTime = 30,
             lapTimes_session = [\<lparr>id_lap = 1, time_lap = 20, lapTime = 20\<rparr>]\<rparr>]] STORAGE_KEY
       = Some (JSON_stringify
           [\<lparr>id_session = ''1000'', date = ''2024-01-01T00:00:01.000Z'', totalTime = 30,
             lapTimes_session = [\<lparr>id_lap = 1, time_lap = 20, lapTime = 20\<rparr>]\<rparr>])
      \<and> load [STORAGE_KEY \<mapsto> JSON_stringify
           [\<lparr>id_session = ''1000'', date = ''2024-01-01T00:00:01.000Z'', totalTime = 30,
             lapTimes_session = [\<lparr>id_lap = 1, time_lap = 20, lapTime = 20\<rparr>]\<rparr>]]
       = sessions_json
           [\<lparr>id_session = ''1000'', date = ''2024-01-01T00:00:01.000Z'', totalTime = 30,
             lapTimes_session = [\<lparr>id_lap = 1, time_lap = 20, lapTime = 20\<rparr>]\<rparr>]"
    using load_cases [of "[STORAGE_KEY \<mapsto> JSON_stringify
           [\<lparr>id_session = ''1000'', date = ''2024-01-01T00:00:01.000Z'', totalTime = 30,
             lapTimes_session = [\<lparr>id_lap = 1, time_lap = 20, lapTime = 20\<rparr>]\<rparr>]]"]
    by simp
  show ?thesis using a b c d by simp
qed

text \<open>
  C2. The load effect is meant to leave the empty session list for every stored value
  that is not a list of sessions, and it does so for a missing key, an empty string and
  invalid JSON. It misses the stored strings that are valid JSON of another shape: it
  hands the parsed value to \<open>setSessions\<close> unchecked. The stored string \<open>null\<close> makes
  \<open>null\<close> the value of \<open>sessions\<close>, \<open>42\<close> the number 42, and \<open>[{}]\<close> a list of one
  entry that has none of the properties of a session; none of the three is the empty list
  or a list of sessions.
\<close>

theorem load_installs_any_json:
  "load [STORAGE_KEY \<mapsto> ''null''] = JNull
   \<and> \<not> session_list_shape (load [STORAGE_KEY \<mapsto> ''null''])
   \<and> load [STORAGE_KEY \<mapsto> ''null''] \<noteq> JArr []
   \<and> load [STORAGE_KEY \<mapsto> ''42''] = JNum ''42''
   \<and> \<not> session_list_shape (load [STORAGE_KEY \<mapsto> ''42''])
   \<and> load [STORAGE_KEY \<mapsto> ''42''] \<noteq> JArr []
   \<and> load [STORAGE_KEY \<mapsto> ''[{}]''] = JArr [JObj []]
   \<and> \<not> session_list_shape (load [STORAGE_KEY \<mapsto> ''[{}]''])
   \<and> load [STORAGE_KEY \<mapsto> ''[{}]''] \<noteq> JArr []"
  by (simp add: load_def eval_json property_def)

text \<open>
  C3. \<open>clearAllHistory\<close> empties the session list and removes the storage key. The
  render that follows runs the save effect on the new empty list, which stores the text
  \<open>[]\<close> under the key again: after the operation the key is present and holds the
  serialised empty list. Loading from the storage gives the empty list either way.
\<close>

theorem clearAll_key_written_again:
  "sessions (clearAllHistory s) = []
   \<and> localStorage (clearAllHistory s) STORAGE_KEY = None
   \<and> load (localStorage (clearAllHistory s)) = JArr []
   \<and> sessions (step ClearAll s) = []
   \<and> localStorage (step ClearAll s) STORAGE_KEY = Some ''[]''
   \<and> localStorage (step ClearAll s) STORAGE_KEY \<noteq> None
   \<and> load (localStorage (step ClearAll s)) = JArr []"
  by (simp add: clearAllHistory_def save_effect_def JSON_stringify_Nil load_def
        JSON_parse_empty_array)

end
